theory Spec2Isabelle
  imports Main "HOL-Library.Multiset" "HOL-Library.Product_Lexorder" "HOL-Library.Word"
begin

section \<open>Data model (models.ts)\<close>

text \<open>
  Timestamps: the source holds them as ISO strings written by
  \<^verbatim>\<open>new Date().toISOString()\<close> and reads them back with
  \<^verbatim>\<open>new Date(s).getTime()\<close>. The model keeps the millisecond count itself.
  Every operation that reads the clock takes the reading \<open>now\<close> as an argument; the
  clock reads made inside one call are taken to be one reading.
\<close>

type_synonym time_ms = int

record Note =
  note_id :: int
  title :: string
  content :: string
  tags :: "string list"
  pinned :: bool
  created_at :: time_ms
  updated_at :: time_ms
  folder_id :: "int option"
  encrypted :: bool

record folder =
  folder_ident :: int
  folder_name :: string
  folder_color :: "string option"
  folder_created_at :: time_ms
  folder_updated_at :: time_ms

text \<open>An optional field of the source (\<^verbatim>\<open>tags?: string[]\<close>) is an \<open>option\<close>;
  \<open>None\<close> is the omitted (undefined) field.\<close>

record CreateNoteData =
  c_title :: string
  c_content :: string
  c_tags :: "string list option"
  c_pinned :: "bool option"
  c_folder_id :: "int option"
  c_encrypted :: "bool option"

record UpdateNoteData =
  u_id :: int
  u_title :: "string option"
  u_content :: "string option"
  u_tags :: "string list option"
  u_pinned :: "bool option"
  u_folder_id :: "int option"
  u_encrypted :: "bool option"

record SearchFilters =
  f_query :: "string option"
  f_tags :: "string list option"
  f_folder_id :: "int option"
  f_pinned :: "bool option"
  f_date_from :: "time_ms option"
  f_date_to :: "time_ms option"

text \<open>The \<^verbatim>\<open>Tag\<close> of models.ts, as \<^verbatim>\<open>FileSystemService.getTags\<close> builds it, and
  the entry with the extra field \<^verbatim>\<open>usageCount\<close> that
  \<^verbatim>\<open>SimpleDatabaseService.getTags\<close> builds.\<close>

record tag =
  tag_id :: nat
  tag_name :: string
  tag_created_at :: time_ms

record ranked_tag = tag +
  usageCount :: nat

definition noFilters :: SearchFilters where
  "noFilters = \<lparr>f_query = None, f_tags = None, f_folder_id = None, f_pinned = None,
     f_date_from = None, f_date_to = None\<rparr>"

section \<open>JavaScript library functions used by the services\<close>

text \<open>
  \<^verbatim>\<open>String.prototype.toLowerCase\<close> is the runtime's function, defined by the Unicode
  case tables. It is not written out: the definitions that call it take it as their
  parameter \<open>toLowerCase\<close>, and what is proved holds for every function put there.
\<close>

text \<open>\<^verbatim>\<open>s.startsWith(q)\<close> and \<^verbatim>\<open>s.includes(q)\<close> on strings.\<close>

fun startsWith :: "'a list \<Rightarrow> 'a list \<Rightarrow> bool" where
  "startsWith s [] = True"
| "startsWith [] (q # qs) = False"
| "startsWith (c # cs) (q # qs) = (c = q \<and> startsWith cs qs)"

fun str_includes :: "'a list \<Rightarrow> 'a list \<Rightarrow> bool" where
  "str_includes [] q = (q = [])"
| "str_includes (c # cs) q = (startsWith (c # cs) q \<or> str_includes cs q)"

text \<open>\<^verbatim>\<open>Array.prototype.some\<close>, \<^verbatim>\<open>Array.prototype.includes\<close> (membership) and
  \<^verbatim>\<open>Array.prototype.find\<close>.\<close>

definition some :: "'a list \<Rightarrow> ('a \<Rightarrow> bool) \<Rightarrow> bool" where
  "some xs p = list_ex p xs"

definition array_includes :: "'a list \<Rightarrow> 'a \<Rightarrow> bool" where
  "array_includes xs x \<longleftrightarrow> x \<in> set xs"

text \<open>\<^verbatim>\<open>Array.prototype.sort(compareFn)\<close>: the sort is stable; an element goes before
  the first element it does not compare greater than.\<close>

fun insert_by :: "('a \<Rightarrow> 'a \<Rightarrow> int) \<Rightarrow> 'a \<Rightarrow> 'a list \<Rightarrow> 'a list" where
  "insert_by cmp x [] = [x]"
| "insert_by cmp x (y # ys) = (if cmp x y \<le> 0 then x # y # ys else y # insert_by cmp x ys)"

definition array_sort :: "('a \<Rightarrow> 'a \<Rightarrow> int) \<Rightarrow> 'a list \<Rightarrow> 'a list" where
  "array_sort cmp xs = foldr (insert_by cmp) xs []"

text \<open>\<^verbatim>\<open>[...new Set(xs)]\<close>: the distinct elements in the order of their first
  occurrence.\<close>

fun new_Set :: "'a list \<Rightarrow> 'a list" where
  "new_Set [] = []"
| "new_Set (x # xs) = x # filter (\<lambda>y. y \<noteq> x) (new_Set xs)"

text \<open>\<^verbatim>\<open>xs.flatMap(f)\<close>.\<close>

definition flatMap :: "'a list \<Rightarrow> ('a \<Rightarrow> 'b list) \<Rightarrow> 'b list" where
  "flatMap xs f = concat (map f xs)"

text \<open>
  JSON texts. \<open>Json x\<close> is the text \<^verbatim>\<open>JSON.stringify(x)\<close>; \<open>Unparsable s\<close> is a text
  \<open>s\<close> on which \<^verbatim>\<open>JSON.parse\<close> throws a SyntaxError. \<open>JSON_parse\<close> returns \<open>None\<close>
  where the source's call throws.
\<close>

datatype 'a json_text = Json 'a | Unparsable string

fun JSON_parse :: "'a json_text \<Rightarrow> 'a option" where
  "JSON_parse (Json x) = Some x"
| "JSON_parse (Unparsable s) = None"

definition JSON_stringify :: "'a \<Rightarrow> 'a json_text" where
  "JSON_stringify x = Json x"

text \<open>The text of a JSON array is given by the texts of its elements; parsing it throws
  as soon as one element is unparsable.\<close>

fun JSON_parse_array :: "'a json_text list \<Rightarrow> 'a list option" where
  "JSON_parse_array [] = Some []"
| "JSON_parse_array (e # es) =
     (case JSON_parse e of None \<Rightarrow> None
      | Some x \<Rightarrow> (case JSON_parse_array es of None \<Rightarrow> None | Some xs \<Rightarrow> Some (x # xs)))"

definition JSON_stringify_array :: "'a list \<Rightarrow> 'a json_text list" where
  "JSON_stringify_array xs = map JSON_stringify xs"

section \<open>SimpleDatabaseService (simpleDatabase.ts): the localStorage backend\<close>

text \<open>The state is the localStorage item under the key \<^verbatim>\<open>scribe-notes\<close>: absent
  (\<open>None\<close>) or the text of a JSON array of notes.\<close>

type_synonym kv_storage = "Note json_text list option"

definition getNotesFromStorage :: "kv_storage \<Rightarrow> Note list" where
  "getNotesFromStorage st =
     (case st of None \<Rightarrow> []
      | Some stored \<Rightarrow> (case JSON_parse_array stored of Some ns \<Rightarrow> ns | None \<Rightarrow> []))"

definition saveNotesToStorage :: "Note list \<Rightarrow> kv_storage" where
  "saveNotesToStorage ns = Some (JSON_stringify_array ns)"

definition kv_createNote :: "kv_storage \<Rightarrow> time_ms \<Rightarrow> CreateNoteData \<Rightarrow> kv_storage \<times> Note" where
  "kv_createNote st now d =
     (let notes = getNotesFromStorage st;
          newNote = \<lparr>note_id = now,
                     title = c_title d,
                     content = c_content d,
                     tags = (case c_tags d of None \<Rightarrow> [] | Some ts \<Rightarrow> ts),
                     pinned = (case c_pinned d of None \<Rightarrow> False | Some p \<Rightarrow> p),
                     created_at = now,
                     updated_at = now,
                     folder_id = c_folder_id d,
                     encrypted = (case c_encrypted d of None \<Rightarrow> False | Some e \<Rightarrow> e)\<rparr>
      in (saveNotesToStorage (newNote # notes), newNote))"

definition kv_getNoteById :: "kv_storage \<Rightarrow> int \<Rightarrow> Note option" where
  "kv_getNoteById st i = find (\<lambda>n. note_id n = i) (getNotesFromStorage st)"

text \<open>The comparator of both \<^verbatim>\<open>getNotes\<close> sorts.\<close>

definition compareNotes :: "Note \<Rightarrow> Note \<Rightarrow> int" where
  "compareNotes a b =
     (if pinned a \<and> \<not> pinned b then -1
      else if \<not> pinned a \<and> pinned b then 1
      else updated_at b - updated_at a)"

definition matchesQuery :: "(string \<Rightarrow> string) \<Rightarrow> string \<Rightarrow> Note \<Rightarrow> bool" where
  "matchesQuery toLowerCase q n =
     (str_includes (toLowerCase (title n)) (toLowerCase q) \<or>
      str_includes (toLowerCase (content n)) (toLowerCase q))"

definition matchesTags :: "string list \<Rightarrow> Note \<Rightarrow> bool" where
  "matchesTags ts n = some ts (\<lambda>t. array_includes (tags n) t)"

text \<open>The three filter steps shared by \<^verbatim>\<open>SimpleDatabaseService.getNotes\<close> and
  \<^verbatim>\<open>FileSystemService.getNotes\<close>; a falsy \<^verbatim>\<open>filters.query\<close> (absent or empty) and an
  absent or empty \<^verbatim>\<open>filters.tags\<close> do not filter.\<close>

definition applyFilters :: "(string \<Rightarrow> string) \<Rightarrow> SearchFilters \<Rightarrow> Note list \<Rightarrow> Note list" where
  "applyFilters toLowerCase fs notes =
     (let n1 = (case f_query fs of
                  Some q \<Rightarrow> if q \<noteq> [] then filter (matchesQuery toLowerCase q) notes else notes
                | None \<Rightarrow> notes);
          n2 = (case f_pinned fs of
                  Some p \<Rightarrow> filter (\<lambda>n. pinned n = p) n1
                | None \<Rightarrow> n1);
          n3 = (case f_tags fs of
                  Some ts \<Rightarrow> if length ts > 0 then filter (matchesTags ts) n2 else n2
                | None \<Rightarrow> n2)
      in n3)"

definition kv_getNotes :: "(string \<Rightarrow> string) \<Rightarrow> kv_storage \<Rightarrow> SearchFilters \<Rightarrow> Note list" where
  "kv_getNotes toLowerCase st fs =
     array_sort compareNotes (applyFilters toLowerCase fs (getNotesFromStorage st))"

text \<open>\<^verbatim>\<open>{...notes[noteIndex], ...data, updated_at: now}\<close>: a field present in
  \<open>data\<close> replaces the note's, an omitted one leaves it.\<close>

definition mergeNote :: "Note \<Rightarrow> UpdateNoteData \<Rightarrow> time_ms \<Rightarrow> Note" where
  "mergeNote n d now =
     \<lparr>note_id = u_id d,
      title = (case u_title d of None \<Rightarrow> title n | Some t \<Rightarrow> t),
      content = (case u_content d of None \<Rightarrow> content n | Some c \<Rightarrow> c),
      tags = (case u_tags d of None \<Rightarrow> tags n | Some ts \<Rightarrow> ts),
      pinned = (case u_pinned d of None \<Rightarrow> pinned n | Some p \<Rightarrow> p),
      created_at = created_at n,
      updated_at = now,
      folder_id = (case u_folder_id d of None \<Rightarrow> folder_id n | Some f \<Rightarrow> Some f),
      encrypted = (case u_encrypted d of None \<Rightarrow> encrypted n | Some e \<Rightarrow> e)\<rparr>"

text \<open>\<^verbatim>\<open>notes.findIndex(p)\<close>: \<open>None\<close> for the source's \<open>-1\<close>.\<close>

fun findIndex :: "('a \<Rightarrow> bool) \<Rightarrow> 'a list \<Rightarrow> nat option" where
  "findIndex p [] = None"
| "findIndex p (x # xs) =
     (if p x then Some 0 else (case findIndex p xs of None \<Rightarrow> None | Some i \<Rightarrow> Some (Suc i)))"

definition kv_updateNote :: "kv_storage \<Rightarrow> time_ms \<Rightarrow> UpdateNoteData \<Rightarrow> kv_storage \<times> Note option" where
  "kv_updateNote st now d =
     (let notes = getNotesFromStorage st in
      case findIndex (\<lambda>n. note_id n = u_id d) notes of
        None \<Rightarrow> (st, None)
      | Some noteIndex \<Rightarrow>
          (let updatedNote = mergeNote (notes ! noteIndex) d now
           in (saveNotesToStorage (notes[noteIndex := updatedNote]), Some updatedNote)))"

definition kv_deleteNote :: "kv_storage \<Rightarrow> int \<Rightarrow> kv_storage \<times> bool" where
  "kv_deleteNote st i =
     (let notes = getNotesFromStorage st;
          filteredNotes = filter (\<lambda>n. note_id n \<noteq> i) notes
      in if length filteredNotes = length notes then (st, False)
         else (saveNotesToStorage filteredNotes, True))"

definition kv_getFolders :: "kv_storage \<Rightarrow> time_ms \<Rightarrow> folder list" where
  "kv_getFolders st now =
     [\<lparr>folder_ident = 1, folder_name = ''General'', folder_color = Some ''#3b82f6'',
       folder_created_at = now, folder_updated_at = now\<rparr>]"

definition kv_createFolder :: "kv_storage \<Rightarrow> time_ms \<Rightarrow> string \<Rightarrow> string option \<Rightarrow> kv_storage \<times> folder" where
  "kv_createFolder st now name color =
     (st, \<lparr>folder_ident = now, folder_name = name, folder_color = color,
            folder_created_at = now, folder_updated_at = now\<rparr>)"

definition kv_getFolderById :: "kv_storage \<Rightarrow> time_ms \<Rightarrow> int \<Rightarrow> folder option" where
  "kv_getFolderById st now i = find (\<lambda>f. folder_ident f = i) (kv_getFolders st now)"

text \<open>\<^verbatim>\<open>getTags\<close>: the entry of the tag at index \<open>i\<close> of the distinct tags is built
  at the clock reading \<open>clock i\<close>.\<close>

definition compareTags :: "ranked_tag \<Rightarrow> ranked_tag \<Rightarrow> int" where
  "compareTags a b =
     (if usageCount a \<noteq> usageCount b
      then int (usageCount b) - int (usageCount a)
      else tag_created_at a - tag_created_at b)"

text \<open>The \<^verbatim>\<open>reduce\<close> that counts the uses of each tag; a tag not met has count 0
  (\<^verbatim>\<open>acc[tag] || 0\<close>). Tag names are taken not to be names of members of
  \<^verbatim>\<open>Object.prototype\<close>, for which the accumulator object would not start at 0.\<close>

definition tagCounts :: "string list \<Rightarrow> string \<Rightarrow> nat" where
  "tagCounts allTags t = foldl (\<lambda>acc x. acc(x := acc x + 1)) (\<lambda>_. 0) allTags t"

definition kv_getTags :: "kv_storage \<Rightarrow> (nat \<Rightarrow> time_ms) \<Rightarrow> ranked_tag list" where
  "kv_getTags st clock =
     (let notes = getNotesFromStorage st;
          allTags = flatMap notes tags;
          uniqueTags = new_Set allTags
      in array_sort compareTags
           (map (\<lambda>(t, index). \<lparr>tag_id = index + 1, tag_name = t, tag_created_at = clock index,
                                usageCount = tagCounts allTags t\<rparr>)
                (zip uniqueTags [0..<length uniqueTags])))"

section \<open>FileSystemService: the file backend\<close>

text \<open>
  The service keeps its files in localStorage under \<^verbatim>\<open>file:\<close> keys. The state is the
  list of the \<^verbatim>\<open>notes/<id>.meta.json\<close> sidecars, in the order \<^verbatim>\<open>localStorage.key(i)\<close>
  enumerates them, each with its text. The rendered note file
  (\<^verbatim>\<open>notes/<title>.md\<close>) is written beside it and never read back by the service;
  its name does not end in \<^verbatim>\<open>.meta.json\<close>, so \<^verbatim>\<open>getNotes\<close> passes over it. The
  empty text is \<open>Unparsable []\<close>.
\<close>

type_synonym fs_storage = "(int \<times> Note json_text) list"

fun writeFile :: "fs_storage \<Rightarrow> int \<Rightarrow> Note json_text \<Rightarrow> fs_storage" where
  "writeFile [] i t = [(i, t)]"
| "writeFile ((k, v) # rest) i t = (if k = i then (i, t) # rest else (k, v) # writeFile rest i t)"

definition readFile :: "fs_storage \<Rightarrow> int \<Rightarrow> Note json_text" where
  "readFile fs i = (case map_of fs i of None \<Rightarrow> Unparsable [] | Some t \<Rightarrow> t)"

definition generateNoteId :: "time_ms \<Rightarrow> int" where
  "generateNoteId now = now"

definition fs_createNote :: "fs_storage \<Rightarrow> time_ms \<Rightarrow> CreateNoteData \<Rightarrow> fs_storage \<times> Note" where
  "fs_createNote fs now d =
     (let n = \<lparr>note_id = generateNoteId now,
                title = c_title d,
                content = c_content d,
                tags = (case c_tags d of None \<Rightarrow> [] | Some ts \<Rightarrow> ts),
                pinned = (case c_pinned d of None \<Rightarrow> False | Some p \<Rightarrow> p),
                created_at = now,
                updated_at = now,
                folder_id = c_folder_id d,
                encrypted = (case c_encrypted d of None \<Rightarrow> False | Some e \<Rightarrow> e)\<rparr>
      in (writeFile fs (note_id n) (JSON_stringify n), n))"

definition fs_getNoteById :: "fs_storage \<Rightarrow> int \<Rightarrow> Note option" where
  "fs_getNoteById fs i =
     (let metadataContent = readFile fs i
      in if metadataContent = Unparsable [] then None else JSON_parse metadataContent)"

text \<open>The loop of \<^verbatim>\<open>getNotes\<close> over the sidecars: a text that does not parse is
  logged with \<^verbatim>\<open>console.error\<close> (second component: the ids of the files logged) and
  the loop goes on.\<close>

fun fs_loadNotes :: "fs_storage \<Rightarrow> Note list \<times> int list" where
  "fs_loadNotes [] = ([], [])"
| "fs_loadNotes ((i, t) # rest) =
     (let (ns, errs) = fs_loadNotes rest
      in case JSON_parse t of Some n \<Rightarrow> (n # ns, errs) | None \<Rightarrow> (ns, i # errs))"

definition fs_getNotes :: "(string \<Rightarrow> string) \<Rightarrow> fs_storage \<Rightarrow> SearchFilters \<Rightarrow> Note list" where
  "fs_getNotes toLowerCase fs filters =
     array_sort compareNotes (applyFilters toLowerCase filters (fst (fs_loadNotes fs)))"

definition fs_updateNote :: "fs_storage \<Rightarrow> time_ms \<Rightarrow> UpdateNoteData \<Rightarrow> fs_storage \<times> Note option" where
  "fs_updateNote fs now d =
     (case fs_getNoteById fs (u_id d) of
        None \<Rightarrow> (fs, None)
      | Some existingNote \<Rightarrow>
          (let updatedNote = mergeNote existingNote d now
           in (writeFile fs (note_id updatedNote) (JSON_stringify updatedNote), Some updatedNote)))"

definition fs_getTags :: "(string \<Rightarrow> string) \<Rightarrow> fs_storage \<Rightarrow> (nat \<Rightarrow> time_ms) \<Rightarrow> tag list" where
  "fs_getTags toLowerCase fs clock =
     (let notes = fs_getNotes toLowerCase fs noFilters;
          allTags = flatMap notes tags;
          uniqueTags = new_Set allTags
      in map (\<lambda>(t, index). \<lparr>tag_id = index + 1, tag_name = t, tag_created_at = clock index\<rparr>)
             (zip uniqueTags [0..<length uniqueTags]))"

section \<open>EncryptionService (encryption.ts)\<close>

type_synonym byte = "8 word"

datatype error =
    EncryptError    \<comment> \<open>\<^verbatim>\<open>Error('Failed to encrypt data')\<close>\<close>
  | DecryptError    \<comment> \<open>\<^verbatim>\<open>Error('Failed to decrypt data')\<close>\<close>
  | ConstraintError \<comment> \<open>the SqliteError of a violated foreign key\<close>
  | BindError       \<comment> \<open>\<^verbatim>\<open>TypeError\<close>: a statement parameter that cannot be bound\<close>

text \<open>
  The cipher itself is Node's \<^verbatim>\<open>crypto\<close> module, which is not part of the
  repository; it is a parameter of the model. \<open>cipher cr key text\<close> is the byte
  sequence that \<^verbatim>\<open>createCipher('aes-256-cbc', key)\<close> produces for \<open>text\<close>
  (\<^verbatim>\<open>update\<close> then \<^verbatim>\<open>final\<close>), \<open>decipher cr key bytes\<close> the text that
  \<^verbatim>\<open>createDecipher('aes-256-cbc', key)\<close> recovers; \<open>None\<close> where the call throws.
\<close>

record crypto =
  cipher :: "string \<Rightarrow> string \<Rightarrow> byte list option"
  decipher :: "string \<Rightarrow> byte list \<Rightarrow> string option"

text \<open>\<^verbatim>\<open>buf.toString('hex')\<close> and the decoding of a hex string, which stops at the first
  pair that is not two hex digits.\<close>

definition hexDigit :: "nat \<Rightarrow> char" where
  "hexDigit n = (if n < 10 then char_of (48 + n) else char_of (87 + n))"

definition toHex :: "byte list \<Rightarrow> string" where
  "toHex bs = concat (map (\<lambda>b. [hexDigit (unat b div 16), hexDigit (unat b mod 16)]) bs)"

definition hexValue :: "char \<Rightarrow> nat option" where
  "hexValue c =
     (let k = (of_char c :: nat) in
      if 48 \<le> k \<and> k \<le> 57 then Some (k - 48)
      else if 97 \<le> k \<and> k \<le> 102 then Some (k - 87)
      else if 65 \<le> k \<and> k \<le> 70 then Some (k - 55)
      else None)"

fun fromHex :: "string \<Rightarrow> byte list" where
  "fromHex (a # b # rest) =
     (case hexValue a of None \<Rightarrow> []
      | Some h \<Rightarrow> (case hexValue b of None \<Rightarrow> []
          | Some l \<Rightarrow> of_nat (16 * h + l) # fromHex rest))"
| "fromHex _ = []"

text \<open>\<^verbatim>\<open>s.split(sep)\<close> for a one-character separator.\<close>

fun split :: "string \<Rightarrow> char \<Rightarrow> string list" where
  "split [] sep = [[]]"
| "split (c # cs) sep =
     (if c = sep then [] # split cs sep
      else (case split cs sep of [] \<Rightarrow> [[c]] | p # ps \<Rightarrow> (c # p) # ps))"

text \<open>\<open>iv\<close> is the value of \<^verbatim>\<open>randomBytes(IV_LENGTH)\<close>.\<close>

definition encrypt :: "crypto \<Rightarrow> byte list \<Rightarrow> string \<Rightarrow> string \<Rightarrow> error + string" where
  "encrypt cr iv text key =
     (case cipher cr key text of
        None \<Rightarrow> Inl EncryptError
      | Some enc \<Rightarrow> Inr (toHex iv @ '':'' @ toHex enc))"

definition decrypt :: "crypto \<Rightarrow> string \<Rightarrow> string \<Rightarrow> error + string" where
  "decrypt cr encryptedText key =
     (let parts = split encryptedText (CHR '':'') in
      if length parts \<noteq> 2 then Inl DecryptError
      else (let iv = fromHex (parts ! 0);
                enc = parts ! 1
            in case decipher cr key (fromHex enc) of
                 None \<Rightarrow> Inl DecryptError
               | Some decrypted \<Rightarrow> Inr decrypted))"

definition isEncrypted :: "string \<Rightarrow> bool" where
  "isEncrypted text = (CHR '':'' \<in> set text \<and> length (split text (CHR '':'')) = 2)"

section \<open>DatabaseService: the SQLite backend\<close>

text \<open>
  The state is the content of the tables \<^verbatim>\<open>notes\<close> and \<^verbatim>\<open>folders\<close>, in rowid order,
  with the counters SQLite keeps for the \<^verbatim>\<open>AUTOINCREMENT\<close> keys, and the service's
  \<^verbatim>\<open>encryptionKey\<close> field. The column \<^verbatim>\<open>tags\<close> holds \<^verbatim>\<open>JSON.stringify(tags)\<close> and is
  read back with \<^verbatim>\<open>JSON.parse\<close>; the row keeps the array, and \<open>tagsText\<close> is the
  column's text. \<^verbatim>\<open>CURRENT_TIMESTAMP\<close> is the clock reading \<open>now\<close>.
  The statements are run by better-sqlite3, which binds numbers, strings and \<^verbatim>\<open>null\<close>
  (an \<^verbatim>\<open>undefined\<close> argument is bound as \<^verbatim>\<open>NULL\<close>) and refuses a JavaScript boolean with a
  \<^verbatim>\<open>TypeError\<close> before the statement is executed. \<open>param\<close> is a value handed to
  \<^verbatim>\<open>run\<close>, \<^verbatim>\<open>get\<close> or \<^verbatim>\<open>all\<close>.
\<close>

datatype param = Number int | Text string | Null | Boolean bool

fun bindable :: "param \<Rightarrow> bool" where
  "bindable (Boolean b) = False"
| "bindable p = True"

record row =
  r_id :: int
  r_title :: string
  r_content :: string
  r_tags :: "string list"
  r_pinned :: bool
  r_folder_id :: "int option"
  r_encrypted :: bool
  r_created_at :: time_ms
  r_updated_at :: time_ms

record database =
  notes_table :: "row list"
  notes_seq :: int
  folders_table :: "folder list"
  folders_seq :: int
  encryptionKey :: "string option"

text \<open>\<^verbatim>\<open>JSON.stringify\<close> of a string: the quote and the backslash are escaped, and so are
  the control characters below U+0020, by their short form or by the six characters of
  a u-escape with lower-case hex digits.\<close>

definition jsonChar :: "char \<Rightarrow> string" where
  "jsonChar c =
     (let n = (of_char c :: nat) in
      if c = CHR 0x22 then [CHR 0x5C, CHR 0x22]
      else if c = CHR 0x5C then [CHR 0x5C, CHR 0x5C]
      else if n = 8 then [CHR 0x5C, CHR ''b'']
      else if n = 9 then [CHR 0x5C, CHR ''t'']
      else if n = 10 then [CHR 0x5C, CHR ''n'']
      else if n = 12 then [CHR 0x5C, CHR ''f'']
      else if n = 13 then [CHR 0x5C, CHR ''r'']
      else if n < 32 then [CHR 0x5C, CHR ''u'', CHR ''0'', CHR ''0'', hexDigit (n div 16), hexDigit (n mod 16)]
      else [c])"

definition jsonString :: "string \<Rightarrow> string" where
  "jsonString s = [CHR 0x22] @ concat (map jsonChar s) @ [CHR 0x22]"

fun commaJoin :: "string list \<Rightarrow> string" where
  "commaJoin [] = []"
| "commaJoin [s] = s"
| "commaJoin (s # t # ts) = s @ '','' @ commaJoin (t # ts)"

definition tagsText :: "string list \<Rightarrow> string" where
  "tagsText ts = ''['' @ commaJoin (map jsonString ts) @ '']''"

text \<open>SQLite's \<^verbatim>\<open>text LIKE pattern\<close>: \<^verbatim>\<open>%\<close> stands for any run of characters,
  \<^verbatim>\<open>_\<close> for any one character, and the ASCII letters, and only they, match without
  regard to case (\<open>lower_char\<close>).\<close>

definition lower_char :: "char \<Rightarrow> char" where
  "lower_char c =
     (let n = (of_char c :: nat) in if 65 \<le> n \<and> n \<le> 90 then char_of (n + 32) else c)"

fun like :: "string \<Rightarrow> string \<Rightarrow> bool" where
  "like [] t = (t = [])"
| "like (p # ps) [] = (p = CHR ''%'' \<and> like ps [])"
| "like (p # ps) (c # cs) =
     (if p = CHR ''%'' then like ps (c # cs) \<or> like (p # ps) cs
      else if p = CHR ''_'' then like ps cs
      else lower_char p = lower_char c \<and> like ps cs)"

text \<open>JavaScript truthiness of \<^verbatim>\<open>this.encryptionKey\<close>: set and not the empty string.\<close>

definition keyInUse :: "database \<Rightarrow> string option" where
  "keyInUse db = (case encryptionKey db of None \<Rightarrow> None | Some k \<Rightarrow> if k = [] then None else Some k)"

definition setEncryptionKey :: "database \<Rightarrow> string \<Rightarrow> database" where
  "setEncryptionKey db key = db\<lparr>encryptionKey := Some key\<rparr>"

definition sentinel :: string where
  "sentinel = ''[Encrypted - Decryption Failed]''"

text \<open>The row-to-note step shared by \<^verbatim>\<open>getNoteById\<close> and \<^verbatim>\<open>getNotes\<close>.\<close>

definition rowToNote :: "crypto \<Rightarrow> database \<Rightarrow> row \<Rightarrow> Note" where
  "rowToNote cr db r =
     (let content0 = r_content r;
          content1 =
            (case keyInUse db of
               Some key \<Rightarrow>
                 if r_encrypted r
                 then (case decrypt cr (r_content r) key of Inr p \<Rightarrow> p | Inl e \<Rightarrow> sentinel)
                 else content0
             | None \<Rightarrow> content0)
      in \<lparr>note_id = r_id r,
          title = r_title r,
          content = content1,
          tags = r_tags r,
          pinned = r_pinned r,
          created_at = r_created_at r,
          updated_at = r_updated_at r,
          folder_id = r_folder_id r,
          encrypted = r_encrypted r\<rparr>)"

definition db_getNoteById :: "crypto \<Rightarrow> database \<Rightarrow> int \<Rightarrow> Note option" where
  "db_getNoteById cr db i =
     (case find (\<lambda>r. r_id r = i) (notes_table db) of
        None \<Rightarrow> None
      | Some r \<Rightarrow> Some (rowToNote cr db r))"

text \<open>The key of a new \<^verbatim>\<open>AUTOINCREMENT\<close> row: one more than the largest key the table
  holds or has ever held.\<close>

definition nextRowid :: "int \<Rightarrow> int list \<Rightarrow> int" where
  "nextRowid seq ids = foldr max ids seq + 1"

text \<open>\<^verbatim>\<open>foreign_keys = ON\<close>: a non-null \<^verbatim>\<open>folder_id\<close> must be the id of a folder.\<close>

definition folderExists :: "database \<Rightarrow> int option \<Rightarrow> bool" where
  "folderExists db f =
     (case f of None \<Rightarrow> True | Some i \<Rightarrow> list_ex (\<lambda>x. folder_ident x = i) (folders_table db))"

text \<open>\<^verbatim>\<open>createNote\<close>. The parameters of the \<^verbatim>\<open>INSERT\<close> hold the booleans \<^verbatim>\<open>pinned\<close>
  and \<^verbatim>\<open>encrypted\<close> (defaulted to \<^verbatim>\<open>false\<close> when omitted), so \<^verbatim>\<open>stmt.run\<close> refuses
  them; the insertion that the statement would make is written out after the check.\<close>

definition db_createNote ::
  "crypto \<Rightarrow> byte list \<Rightarrow> database \<Rightarrow> time_ms \<Rightarrow> CreateNoteData \<Rightarrow> error + (database \<times> Note option)" where
  "db_createNote cr iv db now d =
     (let tags0 = (case c_tags d of None \<Rightarrow> [] | Some ts \<Rightarrow> ts);
          pinned0 = (case c_pinned d of None \<Rightarrow> False | Some p \<Rightarrow> p);
          encrypted0 = (case c_encrypted d of None \<Rightarrow> False | Some e \<Rightarrow> e);
          finalContent =
            (case keyInUse db of
               Some key \<Rightarrow> if encrypted0 then encrypt cr iv (c_content d) key else Inr (c_content d)
             | None \<Rightarrow> Inr (c_content d))
      in case finalContent of
           Inl e \<Rightarrow> Inl e
         | Inr stored \<Rightarrow>
             (let params = [Text (c_title d), Text stored, Text (tagsText tags0), Boolean pinned0,
                           (case c_folder_id d of None \<Rightarrow> Null | Some f \<Rightarrow> Number f),
                           Boolean encrypted0]
              in if \<not> list_all bindable params then Inl BindError
                 else if \<not> folderExists db (c_folder_id d) then Inl ConstraintError
                 else
                   (let lastInsertRowid = nextRowid (notes_seq db) (map r_id (notes_table db));
                        r = \<lparr>r_id = lastInsertRowid, r_title = c_title d, r_content = stored,
                             r_tags = tags0, r_pinned = pinned0, r_folder_id = c_folder_id d,
                             r_encrypted = encrypted0, r_created_at = now, r_updated_at = now\<rparr>;
                        db' = db\<lparr>notes_table := notes_table db @ [r], notes_seq := lastInsertRowid\<rparr>
                    in Inr (db', db_getNoteById cr db' lastInsertRowid))))"

text \<open>The parameters that \<^verbatim>\<open>getNotes\<close> collects for its query: the search term twice, the
  boolean \<^verbatim>\<open>filters.pinned\<close>, the folder id, one pattern for each tag.\<close>

definition getNotesParams :: "SearchFilters \<Rightarrow> param list" where
  "getNotesParams fs =
     (case f_query fs of
        Some q \<Rightarrow> if q \<noteq> [] then [Text (''%'' @ q @ ''%''), Text (''%'' @ q @ ''%'')] else []
      | None \<Rightarrow> [])
     @ (case f_pinned fs of Some p \<Rightarrow> [Boolean p] | None \<Rightarrow> [])
     @ (case f_folder_id fs of Some f \<Rightarrow> if f \<noteq> 0 then [Number f] else [] | None \<Rightarrow> [])
     @ (case f_tags fs of
          Some ts \<Rightarrow> map (\<lambda>t. Text (''%'' @ [CHR 0x22] @ t @ [CHR 0x22] @ ''%'')) ts
        | None \<Rightarrow> [])"

text \<open>The \<^verbatim>\<open>WHERE\<close> clause of a query whose parameters are bound: the conditions on the
  search term, the folder and the tags. (The condition \<^verbatim>\<open>pinned = ?\<close> is only ever in
  a query whose boolean parameter is refused.)\<close>

definition whereClause :: "SearchFilters \<Rightarrow> row \<Rightarrow> bool" where
  "whereClause fs r =
     ((case f_query fs of
         Some q \<Rightarrow> q = [] \<or> like (''%'' @ q @ ''%'') (r_title r) \<or> like (''%'' @ q @ ''%'') (r_content r)
       | None \<Rightarrow> True)
      \<and> (case f_folder_id fs of
            Some f \<Rightarrow> f = 0 \<or> r_folder_id r = Some f
          | None \<Rightarrow> True)
      \<and> (case f_tags fs of
            Some ts \<Rightarrow> ts = [] \<or> list_ex (\<lambda>t. like (''%'' @ [CHR 0x22] @ t @ [CHR 0x22] @ ''%'') (tagsText (r_tags r))) ts
          | None \<Rightarrow> True))"

text \<open>\<^verbatim>\<open>ORDER BY pinned DESC, updated_at DESC\<close>. SQL leaves the order of rows equal in
  both columns to SQLite; \<open>tie\<close> is the rank that SQLite's query plan gives such rows
  (the rowid, ascending or descending, according to the index it scans).\<close>

definition compareRows :: "(row \<Rightarrow> int) \<Rightarrow> row \<Rightarrow> row \<Rightarrow> int" where
  "compareRows tie a b =
     (if r_pinned a \<and> \<not> r_pinned b then -1
      else if \<not> r_pinned a \<and> r_pinned b then 1
      else if r_updated_at a \<noteq> r_updated_at b then r_updated_at b - r_updated_at a
      else tie a - tie b)"

definition selectNotes :: "(row \<Rightarrow> int) \<Rightarrow> database \<Rightarrow> SearchFilters \<Rightarrow> row list" where
  "selectNotes tie db fs = array_sort (compareRows tie) (filter (whereClause fs) (notes_table db))"

definition db_getNotes ::
  "crypto \<Rightarrow> (row \<Rightarrow> int) \<Rightarrow> database \<Rightarrow> SearchFilters \<Rightarrow> error + Note list" where
  "db_getNotes cr tie db fs =
     (if \<not> list_all bindable (getNotesParams fs) then Inl BindError
      else Inr (map (rowToNote cr db) (selectNotes tie db fs)))"

text \<open>\<^verbatim>\<open>updateNote\<close>: the \<^verbatim>\<open>UPDATE\<close> sets the columns whose field is supplied, and
  \<^verbatim>\<open>updated_at\<close>. A supplied \<^verbatim>\<open>pinned\<close> or \<^verbatim>\<open>encrypted\<close> is pushed as the boolean it
  is.\<close>

definition updateRow :: "UpdateNoteData \<Rightarrow> string option \<Rightarrow> time_ms \<Rightarrow> row \<Rightarrow> row" where
  "updateRow d finalContent now r =
     \<lparr>r_id = r_id r,
      r_title = (case u_title d of None \<Rightarrow> r_title r | Some t \<Rightarrow> t),
      r_content = (case finalContent of None \<Rightarrow> r_content r | Some c \<Rightarrow> c),
      r_tags = (case u_tags d of None \<Rightarrow> r_tags r | Some ts \<Rightarrow> ts),
      r_pinned = (case u_pinned d of None \<Rightarrow> r_pinned r | Some p \<Rightarrow> p),
      r_folder_id = (case u_folder_id d of None \<Rightarrow> r_folder_id r | Some f \<Rightarrow> Some f),
      r_encrypted = (case u_encrypted d of None \<Rightarrow> r_encrypted r | Some e \<Rightarrow> e),
      r_created_at = r_created_at r,
      r_updated_at = now\<rparr>"

definition updateParams :: "UpdateNoteData \<Rightarrow> string option \<Rightarrow> param list" where
  "updateParams d finalContent =
     (case u_title d of Some t \<Rightarrow> [Text t] | None \<Rightarrow> [])
     @ (case finalContent of Some c \<Rightarrow> [Text c] | None \<Rightarrow> [])
     @ (case u_tags d of Some ts \<Rightarrow> [Text (tagsText ts)] | None \<Rightarrow> [])
     @ (case u_pinned d of Some p \<Rightarrow> [Boolean p] | None \<Rightarrow> [])
     @ (case u_folder_id d of Some f \<Rightarrow> [Number f] | None \<Rightarrow> [])
     @ (case u_encrypted d of Some e \<Rightarrow> [Boolean e] | None \<Rightarrow> [])
     @ [Number (u_id d)]"

definition db_updateNote ::
  "crypto \<Rightarrow> byte list \<Rightarrow> database \<Rightarrow> time_ms \<Rightarrow> UpdateNoteData \<Rightarrow> error + (database \<times> Note option)" where
  "db_updateNote cr iv db now d =
     (case db_getNoteById cr db (u_id d) of
        None \<Rightarrow> Inr (db, None)
      | Some currentNote \<Rightarrow>
          (let finalContent =
                 (case u_content d of
                    None \<Rightarrow> Inr None
                  | Some c \<Rightarrow>
                      (case keyInUse db of
                         Some key \<Rightarrow>
                           if u_encrypted d = Some True
                           then (case encrypt cr iv c key of Inl e \<Rightarrow> Inl e | Inr x \<Rightarrow> Inr (Some x))
                           else Inr (Some c)
                       | None \<Rightarrow> Inr (Some c)))
           in case finalContent of
                Inl e \<Rightarrow> Inl e
              | Inr fc \<Rightarrow>
                  if \<not> list_all bindable (updateParams d fc) then Inl BindError
                  else if \<not> folderExists db (u_folder_id d) then Inl ConstraintError
                  else
                    (let db' = db\<lparr>notes_table :=
                                   map (\<lambda>r. if r_id r = u_id d then updateRow d fc now r else r)
                                       (notes_table db)\<rparr>
                     in Inr (db', db_getNoteById cr db' (u_id d)))))"

text \<open>The folders table after \<^verbatim>\<open>initializeDatabase\<close> on a fresh file.\<close>

definition initializeDatabase :: "time_ms \<Rightarrow> database" where
  "initializeDatabase now =
     \<lparr>notes_table = [], notes_seq = 0,
      folders_table = [\<lparr>folder_ident = 1, folder_name = ''General'', folder_color = Some ''#3b82f6'',
                        folder_created_at = now, folder_updated_at = now\<rparr>],
      folders_seq = 1, encryptionKey = None\<rparr>"

section \<open>Sort keys\<close>

text \<open>The order that \<open>compareNotes\<close> induces, as a key in the lexicographic order of
  pairs: pinned notes first, then later updates first.\<close>

definition noteKey :: "Note \<Rightarrow> nat \<times> int" where
  "noteKey n = (if pinned n then 0 else 1, - updated_at n)"

section \<open>Predicates of the properties\<close>

text \<open>A listing \<open>r\<close> of the notes \<open>src\<close>: the same notes, no unpinned note before a pinned
  one, later updates first among notes of equal pin state, and notes equal in both keys in
  the order they have in \<open>src\<close>.\<close>

definition listing_ordered :: "Note list \<Rightarrow> Note list \<Rightarrow> bool" where
  "listing_ordered src r \<longleftrightarrow>
     mset r = mset src
     \<and> sorted_wrt (\<lambda>a b. pinned b \<longrightarrow> pinned a) r
     \<and> sorted_wrt (\<lambda>a b. pinned a = pinned b \<longrightarrow> updated_at b \<le> updated_at a) r
     \<and> (\<forall>p u. filter (\<lambda>n. pinned n = p \<and> updated_at n = u) r
               = filter (\<lambda>n. pinned n = p \<and> updated_at n = u) src)"

text \<open>What an update \<open>d\<close> at time \<open>now\<close> leaves of the note \<open>old\<close> in the note \<open>new\<close>:
  identity and creation time stay, the update time is \<open>now\<close>, and each field other than
  the content is the supplied value or, when omitted, the old one.\<close>

definition retains_omitted :: "Note \<Rightarrow> UpdateNoteData \<Rightarrow> time_ms \<Rightarrow> Note \<Rightarrow> bool" where
  "retains_omitted old d now new \<longleftrightarrow>
     note_id new = note_id old \<and> created_at new = created_at old \<and> updated_at new = now
     \<and> title new = (case u_title d of None \<Rightarrow> title old | Some t \<Rightarrow> t)
     \<and> tags new = (case u_tags d of None \<Rightarrow> tags old | Some ts \<Rightarrow> ts)
     \<and> pinned new = (case u_pinned d of None \<Rightarrow> pinned old | Some p \<Rightarrow> p)
     \<and> folder_id new = (case u_folder_id d of None \<Rightarrow> folder_id old | Some f \<Rightarrow> Some f)
     \<and> encrypted new = (case u_encrypted d of None \<Rightarrow> encrypted old | Some e \<Rightarrow> e)"

definition only_pinned :: "UpdateNoteData \<Rightarrow> bool" where
  "only_pinned d \<longleftrightarrow> u_title d = None \<and> u_content d = None \<and> u_tags d = None
     \<and> u_folder_id d = None \<and> u_encrypted d = None"

text \<open>The order that \<open>compareTags\<close> induces: more uses first, then the earlier
  \<^verbatim>\<open>created_at\<close>.\<close>

definition tagKey :: "ranked_tag \<Rightarrow> int \<times> int" where
  "tagKey t = (- int (usageCount t), tag_created_at t)"

text \<open>The notes that the filter steps of the localStorage and file backends keep.\<close>

definition passesFilters :: "(string \<Rightarrow> string) \<Rightarrow> SearchFilters \<Rightarrow> Note \<Rightarrow> bool" where
  "passesFilters toLowerCase fs n \<longleftrightarrow>
     (case f_query fs of
        Some q \<Rightarrow> q = [] \<or> matchesQuery toLowerCase q n
      | None \<Rightarrow> True)
     \<and> (case f_pinned fs of Some p \<Rightarrow> pinned n = p | None \<Rightarrow> True)
     \<and> (case f_tags fs of
           Some ts \<Rightarrow> ts = [] \<or> (\<exists>t \<in> set ts. t \<in> set (tags n))
         | None \<Rightarrow> True)"

text \<open>The entries before the sort: one per distinct tag, in first-met order, numbered
  from 1, each with the number of its occurrences.\<close>

definition tagEntries :: "string list \<Rightarrow> (nat \<Rightarrow> time_ms) \<Rightarrow> ranked_tag list" where
  "tagEntries allTags clock =
     map (\<lambda>i. \<lparr>tag_id = i + 1, tag_name = new_Set allTags ! i, tag_created_at = clock i,
                usageCount = tagCounts allTags (new_Set allTags ! i)\<rparr>)
       [0..<length (new_Set allTags)]"

text \<open>The order of \<^verbatim>\<open>ORDER BY pinned DESC, updated_at DESC\<close> as a key.\<close>

definition rowKey :: "(row \<Rightarrow> int) \<Rightarrow> row \<Rightarrow> nat \<times> int \<times> int" where
  "rowKey tie r = (if r_pinned r then 0 else 1, - r_updated_at r, tie r)"

section \<open>Values for the closed examples\<close>

text \<open>A stand-in for \<^verbatim>\<open>toLowerCase\<close> in the closed examples, whose texts are ASCII.\<close>

definition asciiLower :: "string \<Rightarrow> string" where
  "asciiLower s = map lower_char s"

definition sampleNote :: "int \<Rightarrow> string list \<Rightarrow> bool \<Rightarrow> time_ms \<Rightarrow> Note" where
  "sampleNote i ts p u =
     \<lparr>note_id = i, title = ''Note'', content = ''text'', tags = ts, pinned = p,
      created_at = i, updated_at = u, folder_id = None, encrypted = False\<rparr>"

definition sampleRow :: "int \<Rightarrow> string \<Rightarrow> bool \<Rightarrow> row" where
  "sampleRow i c e =
     \<lparr>r_id = i, r_title = ''Note'', r_content = c, r_tags = [], r_pinned = False,
      r_folder_id = None, r_encrypted = e, r_created_at = 0, r_updated_at = 0\<rparr>"

definition pinUpdate :: "int \<Rightarrow> bool \<Rightarrow> UpdateNoteData" where
  "pinUpdate i p =
     \<lparr>u_id = i, u_title = None, u_content = None, u_tags = None, u_pinned = Some p,
      u_folder_id = None, u_encrypted = None\<rparr>"

definition sampleCreate :: "string \<Rightarrow> bool \<Rightarrow> CreateNoteData" where
  "sampleCreate c e =
     \<lparr>c_title = ''Note'', c_content = c, c_tags = None, c_pinned = None, c_folder_id = None,
      c_encrypted = Some e\<rparr>"

text \<open>A stand-in for the cipher in the closed examples: the bytes of the text behind one
  byte that depends on the key; deciphering checks that byte.\<close>

definition sampleCrypto :: crypto where
  "sampleCrypto =
     \<lparr>cipher = (\<lambda>key text. Some (of_nat (length key) # map (\<lambda>c. of_nat (of_char c)) text)),
      decipher = (\<lambda>key bs. case bs of [] \<Rightarrow> None
                   | b # rest \<Rightarrow> if b = of_nat (length key)
                                then Some (map (\<lambda>x. char_of (unat x)) rest) else None)\<rparr>"

definition sampleDb :: "row list \<Rightarrow> string option \<Rightarrow> database" where
  "sampleDb rows key = (initializeDatabase 0)\<lparr>notes_table := rows, encryptionKey := key\<rparr>"

section \<open>Folders of the localStorage backend\<close>

text \<open>
  C10. In the localStorage backend \<^verbatim>\<open>createFolder\<close> leaves the storage as it was and
  returns a folder whose id is the clock reading; \<^verbatim>\<open>getFolders\<close> afterwards is the one
  hardcoded folder General with id 1, whatever was created; \<^verbatim>\<open>getFolderById\<close> of the
  created folder's id is null unless that id is 1, in which case it is the hardcoded
  folder.
\<close>

theorem kv_createFolder_not_persisted:
  assumes "kv_createFolder st now name color = (st', f)"
  shows "st' = st
    \<and> folder_ident f = now \<and> folder_name f = name
    \<and> kv_getFolders st' later =
          [\<lparr>folder_ident = 1, folder_name = ''General'', folder_color = Some ''#3b82f6'',
            folder_created_at = later, folder_updated_at = later\<rparr>]
    \<and> kv_getFolderById st' later (folder_ident f) =
          (if folder_ident f = 1
           then Some \<lparr>folder_ident = 1, folder_name = ''General'', folder_color = Some ''#3b82f6'',
                       folder_created_at = later, folder_updated_at = later\<rparr>
           else None)"
  using assms by (auto simp: kv_createFolder_def kv_getFolders_def kv_getFolderById_def)

theorem kv_createFolder_not_persisted_witness:
  "kv_createFolder None 1700000000000 ''Work'' None =
     (None, \<lparr>folder_ident = 1700000000000, folder_name = ''Work'', folder_color = None,
             folder_created_at = 1700000000000, folder_updated_at = 1700000000000\<rparr>)
   \<and> kv_getFolders None 1700000000001 =
          [\<lparr>folder_ident = 1, folder_name = ''General'', folder_color = Some ''#3b82f6'',
            folder_created_at = 1700000000001, folder_updated_at = 1700000000001\<rparr>]
   \<and> kv_getFolderById None 1700000000001 1700000000000 = None"
proof -
  have c: "kv_createFolder None 1700000000000 ''Work'' None =
     (None, \<lparr>folder_ident = 1700000000000, folder_name = ''Work'', folder_color = None,
             folder_created_at = 1700000000000, folder_updated_at = 1700000000000\<rparr>)"
    by (simp add: kv_createFolder_def)
  from kv_createFolder_not_persisted [OF c, of 1700000000001] c show ?thesis
    by simp
qed

section \<open>The JavaScript sort as a stable key sort\<close>

lemma insert_by_insort:
  assumes "\<And>a b. cmp a b \<le> 0 \<longleftrightarrow> key a \<le> key b"
  shows "insert_by cmp x ys = insort_key key x ys"
  by (induction ys) (simp_all add: assms)

lemma array_sort_sort_key:
  assumes "\<And>a b. cmp a b \<le> 0 \<longleftrightarrow> key a \<le> key b"
  shows "array_sort cmp xs = sort_key key xs"
  by (induction xs) (simp_all add: array_sort_def sort_key_def insert_by_insort [OF assms])

lemma compareNotes_key: "compareNotes a b \<le> 0 \<longleftrightarrow> noteKey a \<le> noteKey b"
  by (auto simp: compareNotes_def noteKey_def less_eq_prod_def)

lemma array_sort_notes: "array_sort compareNotes xs = sort_key noteKey xs"
  by (rule array_sort_sort_key) (rule compareNotes_key)

lemma sorted_notes_by_key:
  "sorted_wrt (\<lambda>a b. noteKey a \<le> noteKey b) (array_sort compareNotes xs)"
proof -
  have "sorted (map noteKey (sort_key noteKey xs))" by (rule sorted_sort_key)
  then show ?thesis by (simp add: sorted_map array_sort_notes)
qed

lemma sorted_notes_pinned_first:
  "sorted_wrt (\<lambda>a b. pinned b \<longrightarrow> pinned a) (array_sort compareNotes xs)"
  by (rule sorted_wrt_mono_rel [OF _ sorted_notes_by_key])
     (auto simp: noteKey_def less_eq_prod_def split: if_splits)

lemma sorted_notes_updated_desc:
  "sorted_wrt (\<lambda>a b. pinned a = pinned b \<longrightarrow> updated_at b \<le> updated_at a)
     (array_sort compareNotes xs)"
  by (rule sorted_wrt_mono_rel [OF _ sorted_notes_by_key])
     (auto simp: noteKey_def less_eq_prod_def split: if_splits)

lemma notes_sort_stable:
  "filter (\<lambda>n. pinned n = p \<and> updated_at n = u) (array_sort compareNotes xs)
     = filter (\<lambda>n. pinned n = p \<and> updated_at n = u) xs"
proof -
  have eq: "(\<lambda>n. pinned n = p \<and> updated_at n = u) = (\<lambda>n. noteKey n = (if p then 0 else 1, - u))"
    by (auto simp: noteKey_def fun_eq_iff)
  show ?thesis unfolding array_sort_notes eq by (rule sort_key_stable)
qed

lemma mset_array_sort_notes: "mset (array_sort compareNotes xs) = mset xs"
  by (simp add: array_sort_notes)

lemma array_sort_listing: "listing_ordered xs (array_sort compareNotes xs)"
  unfolding listing_ordered_def
  by (simp add: mset_array_sort_notes sorted_notes_pinned_first sorted_notes_updated_desc
      notes_sort_stable)

section \<open>Order of the listings\<close>

text \<open>
  C6. For every stored collection and every filter (and whatever the runtime's
  \<^verbatim>\<open>toLowerCase\<close> is), the listing that \<^verbatim>\<open>getNotes\<close>
  returns (localStorage backend and file backend) holds exactly the notes that pass the
  filter, with every pinned note before every unpinned one, within each pin group in
  descending \<^verbatim>\<open>updated_at\<close>, and with notes of equal pin state and equal
  \<^verbatim>\<open>updated_at\<close> in the relative order they had before the sort.
\<close>

theorem getNotes_order:
  "listing_ordered (applyFilters lc fs (getNotesFromStorage st)) (kv_getNotes lc st fs)
   \<and> listing_ordered (applyFilters lc fs (fst (fs_loadNotes files))) (fs_getNotes lc files fs)"
  unfolding kv_getNotes_def fs_getNotes_def by (simp add: array_sort_listing)

theorem getNotes_order_witness:
  "kv_getNotes asciiLower (Some [Json (sampleNote 1 [] False 20), Json (sampleNote 2 [] True 10),
                      Json (sampleNote 3 [] True 30)]) noFilters
     = [sampleNote 3 [] True 30, sampleNote 2 [] True 10, sampleNote 1 [] False 20]
   \<and> listing_ordered
        [sampleNote 1 [] False 20, sampleNote 2 [] True 10, sampleNote 3 [] True 30]
        [sampleNote 3 [] True 30, sampleNote 2 [] True 10, sampleNote 1 [] False 20]"
proof -
  let ?st = "Some [Json (sampleNote 1 [] False 20), Json (sampleNote 2 [] True 10),
                   Json (sampleNote 3 [] True 30)]"
  have src: "applyFilters asciiLower noFilters (getNotesFromStorage ?st)
      = [sampleNote 1 [] False 20, sampleNote 2 [] True 10, sampleNote 3 [] True 30]"
    by (simp add: applyFilters_def noFilters_def getNotesFromStorage_def)
  have res: "kv_getNotes asciiLower ?st noFilters
      = [sampleNote 3 [] True 30, sampleNote 2 [] True 10, sampleNote 1 [] False 20]"
    unfolding kv_getNotes_def src
    by (simp add: array_sort_def compareNotes_def sampleNote_def)
  from getNotes_order [of asciiLower noFilters ?st "[]"] show ?thesis
    unfolding src res by simp
qed

section \<open>Partial updates\<close>

lemma findIndex_find:
  "findIndex p xs = Some i \<Longrightarrow> i < length xs \<and> find p xs = Some (xs ! i) \<and> p (xs ! i)"
  by (induction xs arbitrary: i) (auto split: if_splits option.splits)

lemma findIndex_None: "findIndex p xs = None \<longleftrightarrow> find p xs = None"
  by (induction xs) (auto split: option.splits)

lemma find_update_first:
  "findIndex p xs = Some i \<Longrightarrow> p y \<Longrightarrow> find p (xs[i := y]) = Some y"
  by (induction xs arbitrary: i) (auto split: if_splits option.splits)

lemma parse_stringify_array: "JSON_parse_array (JSON_stringify_array xs) = Some xs"
  by (induction xs) (simp_all add: JSON_stringify_array_def JSON_stringify_def)

lemma load_save: "getNotesFromStorage (saveNotesToStorage ns) = ns"
  by (simp add: getNotesFromStorage_def saveNotesToStorage_def parse_stringify_array)

lemma mergeNote_retains:
  "note_id old = u_id d \<Longrightarrow> retains_omitted old d now (mergeNote old d now)"
  by (simp add: retains_omitted_def mergeNote_def)

lemma mergeNote_content:
  "content (mergeNote old d now) = (case u_content d of None \<Rightarrow> content old | Some c \<Rightarrow> c)"
  by (simp add: mergeNote_def)

lemma kv_update:
  assumes "kv_getNoteById st (u_id d) = Some old"
  shows "snd (kv_updateNote st now d) = Some (mergeNote old d now)"
    and "kv_getNoteById (fst (kv_updateNote st now d)) (u_id d) = Some (mergeNote old d now)"
    and "note_id old = u_id d"
proof -
  let ?ns = "getNotesFromStorage st"
  let ?p = "\<lambda>n. note_id n = u_id d"
  from assms have f: "find ?p ?ns = Some old" by (simp add: kv_getNoteById_def)
  then obtain i where i: "findIndex ?p ?ns = Some i"
    using findIndex_None [of ?p ?ns] by (cases "findIndex ?p ?ns") auto
  from findIndex_find [OF i] f have old: "?ns ! i = old" "note_id old = u_id d" by auto
  show "note_id old = u_id d" by fact
  have 1: "kv_updateNote st now d
      = (saveNotesToStorage (?ns[i := mergeNote old d now]), Some (mergeNote old d now))"
    using i old by (simp add: kv_updateNote_def Let_def)
  then show "snd (kv_updateNote st now d) = Some (mergeNote old d now)" by simp
  have "?p (mergeNote old d now)" by (simp add: mergeNote_def)
  from find_update_first [OF i this]
  show "kv_getNoteById (fst (kv_updateNote st now d)) (u_id d) = Some (mergeNote old d now)"
    unfolding 1 by (simp add: kv_getNoteById_def load_save)
qed

lemma map_of_writeFile: "map_of (writeFile fs i t) i = Some t"
  by (induction fs i t rule: writeFile.induct) auto

lemma fs_get_after_write: "fs_getNoteById (writeFile fs i (JSON_stringify n)) i = Some n"
  by (simp add: fs_getNoteById_def readFile_def map_of_writeFile JSON_stringify_def)

lemma fs_update:
  assumes "fs_getNoteById fs (u_id d) = Some old"
  shows "snd (fs_updateNote fs now d) = Some (mergeNote old d now)"
    and "fs_getNoteById (fst (fs_updateNote fs now d)) (u_id d) = Some (mergeNote old d now)"
proof -
  have i: "note_id (mergeNote old d now) = u_id d" by (simp add: mergeNote_def)
  show "snd (fs_updateNote fs now d) = Some (mergeNote old d now)"
    using assms by (simp add: fs_updateNote_def Let_def)
  show "fs_getNoteById (fst (fs_updateNote fs now d)) (u_id d) = Some (mergeNote old d now)"
    using assms by (simp add: fs_updateNote_def Let_def i fs_get_after_write)
qed

lemma find_map_update:
  assumes "\<And>r. r_id (g r) = r_id r"
  shows "find (\<lambda>r. r_id r = i) (map (\<lambda>r. if r_id r = i then g r else r) xs)
           = map_option g (find (\<lambda>r. r_id r = i) xs)"
  by (induction xs) (auto simp: assms)

lemma r_id_updateRow: "r_id (updateRow d fc now r) = r_id r"
  by (simp add: updateRow_def)

lemma keyInUse_notes_table: "keyInUse (db\<lparr>notes_table := x\<rparr>) = keyInUse db"
  by (simp add: keyInUse_def)

lemma updateParams_bindable:
  "list_all bindable (updateParams d fc) \<longleftrightarrow> u_pinned d = None \<and> u_encrypted d = None"
  by (auto simp: updateParams_def split: option.splits)

lemma db_update_row:
  assumes "find (\<lambda>r. r_id r = u_id d) (notes_table db) = Some r"
    and "db_updateNote cr iv db now d = Inr (db', res)"
  shows "\<exists>fc. find (\<lambda>r. r_id r = u_id d) (notes_table db') = Some (updateRow d fc now r)
           \<and> (u_content d = None \<longrightarrow> fc = None)
           \<and> res = Some (rowToNote cr db' (updateRow d fc now r))
           \<and> keyInUse db' = keyInUse db
           \<and> u_pinned d = None \<and> u_encrypted d = None"
  using assms
  by (auto simp: db_updateNote_def db_getNoteById_def Let_def find_map_update r_id_updateRow
           keyInUse_notes_table updateParams_bindable split: option.splits sum.splits if_splits)

lemma rowToNote_fields:
  "note_id (rowToNote cr db r) = r_id r"
  "title (rowToNote cr db r) = r_title r"
  "tags (rowToNote cr db r) = r_tags r"
  "pinned (rowToNote cr db r) = r_pinned r"
  "created_at (rowToNote cr db r) = r_created_at r"
  "updated_at (rowToNote cr db r) = r_updated_at r"
  "folder_id (rowToNote cr db r) = r_folder_id r"
  "encrypted (rowToNote cr db r) = r_encrypted r"
  by (simp_all add: rowToNote_def Let_def)

lemma rowToNote_content:
  "content (rowToNote cr db r) =
     (case keyInUse db of
        Some key \<Rightarrow>
          if r_encrypted r
          then (case decrypt cr (r_content r) key of Inr p \<Rightarrow> p | Inl e \<Rightarrow> sentinel)
          else r_content r
      | None \<Rightarrow> r_content r)"
  by (simp add: rowToNote_def Let_def)

lemma updateRow_fields:
  "r_title (updateRow d fc now r) = (case u_title d of None \<Rightarrow> r_title r | Some t \<Rightarrow> t)"
  "r_content (updateRow d fc now r) = (case fc of None \<Rightarrow> r_content r | Some c \<Rightarrow> c)"
  "r_tags (updateRow d fc now r) = (case u_tags d of None \<Rightarrow> r_tags r | Some ts \<Rightarrow> ts)"
  "r_pinned (updateRow d fc now r) = (case u_pinned d of None \<Rightarrow> r_pinned r | Some p \<Rightarrow> p)"
  "r_folder_id (updateRow d fc now r)
     = (case u_folder_id d of None \<Rightarrow> r_folder_id r | Some f \<Rightarrow> Some f)"
  "r_encrypted (updateRow d fc now r)
     = (case u_encrypted d of None \<Rightarrow> r_encrypted r | Some e \<Rightarrow> e)"
  "r_created_at (updateRow d fc now r) = r_created_at r"
  "r_updated_at (updateRow d fc now r) = now"
  by (simp_all add: updateRow_def)

lemma rowToNote_updateRow:
  "retains_omitted (rowToNote cr db r) d now (rowToNote cr db' (updateRow d fc now r))"
  by (simp add: retains_omitted_def rowToNote_fields updateRow_fields r_id_updateRow
      cong: option.case_cong)

lemma rowToNote_updateRow_content:
  assumes "keyInUse db' = keyInUse db" and "u_content d = None \<longrightarrow> fc = None"
    and "u_content d = None" and "u_encrypted d = None"
  shows "content (rowToNote cr db' (updateRow d fc now r)) = content (rowToNote cr db r)"
  using assms by (simp add: rowToNote_content updateRow_fields cong: option.case_cong if_cong)

lemma db_update:
  assumes "db_getNoteById cr db (u_id d) = Some old"
    and "db_updateNote cr iv db now d = Inr (db', res)"
  shows "\<exists>new. res = Some new \<and> db_getNoteById cr db' (u_id d) = Some new
            \<and> retains_omitted old d now new
            \<and> (u_content d = None \<longrightarrow> content new = content old)
            \<and> u_pinned d = None \<and> u_encrypted d = None"
proof (cases "find (\<lambda>r. r_id r = u_id d) (notes_table db)")
  case None
  with assms(1) show ?thesis by (simp add: db_getNoteById_def)
next
  case (Some r)
  with assms(1) have old: "rowToNote cr db r = old" by (simp add: db_getNoteById_def)
  from db_update_row [OF Some assms(2)] obtain fc where
    fc0: "find (\<lambda>r. r_id r = u_id d) (notes_table db') = Some (updateRow d fc now r)
           \<and> (u_content d = None \<longrightarrow> fc = None)
           \<and> res = Some (rowToNote cr db' (updateRow d fc now r))
           \<and> keyInUse db' = keyInUse db
           \<and> u_pinned d = None \<and> u_encrypted d = None" ..
  then have fc: "find (\<lambda>r. r_id r = u_id d) (notes_table db') = Some (updateRow d fc now r)"
        "u_content d = None \<longrightarrow> fc = None"
        "res = Some (rowToNote cr db' (updateRow d fc now r))"
        "keyInUse db' = keyInUse db"
        "u_pinned d = None" "u_encrypted d = None"
    by simp_all
  have c: "u_content d = None \<longrightarrow>
      content (rowToNote cr db' (updateRow d fc now r)) = content (rowToNote cr db r)"
    using rowToNote_updateRow_content [OF fc(4) fc(2) _ fc(6)] by simp
  have g: "db_getNoteById cr db' (u_id d) = Some (rowToNote cr db' (updateRow d fc now r))"
    using fc(1) by (simp add: db_getNoteById_def)
  have "res = Some (rowToNote cr db' (updateRow d fc now r))
      \<and> db_getNoteById cr db' (u_id d) = Some (rowToNote cr db' (updateRow d fc now r))
      \<and> retains_omitted (rowToNote cr db r) d now (rowToNote cr db' (updateRow d fc now r))
      \<and> (u_content d = None \<longrightarrow>
           content (rowToNote cr db' (updateRow d fc now r)) = content (rowToNote cr db r))
      \<and> u_pinned d = None \<and> u_encrypted d = None"
    using fc(3,5,6) g c rowToNote_updateRow [of cr db r d now db' fc] by simp
  then show ?thesis unfolding old by (rule exI)
qed

text \<open>An update of an existing row that supplies \<^verbatim>\<open>pinned\<close> or \<^verbatim>\<open>encrypted\<close> is
  refused when its parameters are bound (unless the cipher has thrown before), and
  nothing is written.\<close>

lemma db_update_boolean_refused:
  assumes "db_getNoteById cr db (u_id d) = Some old"
    and "u_pinned d \<noteq> None \<or> u_encrypted d \<noteq> None"
  shows "db_updateNote cr iv db now d = Inl BindError
       \<or> db_updateNote cr iv db now d = Inl EncryptError"
proof -
  have e: "\<And>c key x. encrypt cr iv c key = Inl x \<Longrightarrow> x = EncryptError"
    by (auto simp: encrypt_def split: option.splits)
  from assms show ?thesis
    by (auto simp: db_updateNote_def Let_def updateParams_bindable dest: e
        split: option.splits sum.splits)
qed

lemma db_update_only_pinned_refused:
  assumes "db_getNoteById cr db (u_id d) = Some old"
    and "only_pinned d" and "u_pinned d = Some p"
  shows "db_updateNote cr iv db now d = Inl BindError"
  using assms by (simp add: db_updateNote_def Let_def updateParams_bindable only_pinned_def)

text \<open>
  Where an update goes through, it keeps every omitted field: in the localStorage and
  file backends always, for an existing note, and in the SQLite backend whenever
  \<^verbatim>\<open>updateNote\<close> returns, which it does only for updates that supply neither
  \<^verbatim>\<open>pinned\<close> nor \<^verbatim>\<open>encrypted\<close>. The returned (and stored) note has the id and the
  creation time it had, the update time of the call, and for each other field the
  supplied value or, when the field is omitted, the previous one. In the file backend the
  sidecar read under the update's id is taken to hold the note of that id, as every
  sidecar the service writes does.
\<close>

lemma update_retains_omitted:
  "(\<forall>old. kv_getNoteById st (u_id d) = Some old \<longrightarrow>
      (\<exists>new. snd (kv_updateNote st now d) = Some new
         \<and> kv_getNoteById (fst (kv_updateNote st now d)) (u_id d) = Some new
         \<and> retains_omitted old d now new
         \<and> content new = (case u_content d of None \<Rightarrow> content old | Some c \<Rightarrow> c)))
   \<and> (\<forall>old. fs_getNoteById files (u_id d) = Some old \<and> note_id old = u_id d \<longrightarrow>
      (\<exists>new. snd (fs_updateNote files now d) = Some new
         \<and> fs_getNoteById (fst (fs_updateNote files now d)) (u_id d) = Some new
         \<and> retains_omitted old d now new
         \<and> content new = (case u_content d of None \<Rightarrow> content old | Some c \<Rightarrow> c)))
   \<and> (\<forall>old db' res. db_getNoteById cr db (u_id d) = Some old
         \<and> db_updateNote cr iv db now d = Inr (db', res) \<longrightarrow>
      (\<exists>new. res = Some new \<and> db_getNoteById cr db' (u_id d) = Some new
         \<and> retains_omitted old d now new
         \<and> (u_content d = None \<longrightarrow> content new = content old)
         \<and> u_pinned d = None \<and> u_encrypted d = None))"
proof (intro conjI allI impI)
  fix old assume a: "kv_getNoteById st (u_id d) = Some old"
  from kv_update(1,2) [OF a, of now] kv_update(3) [OF a] mergeNote_retains [of old d now]
    mergeNote_content [of old d now]
  show "\<exists>new. snd (kv_updateNote st now d) = Some new
         \<and> kv_getNoteById (fst (kv_updateNote st now d)) (u_id d) = Some new
         \<and> retains_omitted old d now new
         \<and> content new = (case u_content d of None \<Rightarrow> content old | Some c \<Rightarrow> c)"
    by simp
next
  fix old assume "fs_getNoteById files (u_id d) = Some old \<and> note_id old = u_id d"
  then have a: "fs_getNoteById files (u_id d) = Some old" and b: "note_id old = u_id d"
    by simp_all
  from fs_update [OF a, of now] mergeNote_retains [OF b, of now]
    mergeNote_content [of old d now]
  show "\<exists>new. snd (fs_updateNote files now d) = Some new
         \<and> fs_getNoteById (fst (fs_updateNote files now d)) (u_id d) = Some new
         \<and> retains_omitted old d now new
         \<and> content new = (case u_content d of None \<Rightarrow> content old | Some c \<Rightarrow> c)"
    by simp
next
  fix old db' res
  assume "db_getNoteById cr db (u_id d) = Some old
         \<and> db_updateNote cr iv db now d = Inr (db', res)"
  then have a: "db_getNoteById cr db (u_id d) = Some old"
    and b: "db_updateNote cr iv db now d = Inr (db', res)" by simp_all
  from db_update [OF a b]
  show "\<exists>new. res = Some new \<and> db_getNoteById cr db' (u_id d) = Some new
         \<and> retains_omitted old d now new
         \<and> (u_content d = None \<longrightarrow> content new = content old)
         \<and> u_pinned d = None \<and> u_encrypted d = None" .
qed

text \<open>
  C7 at an update of \<^verbatim>\<open>pinned\<close> alone in the SQLite backend: \<^verbatim>\<open>updateNote\<close> pushes the
  boolean among the statement's parameters and the statement is refused, so the call
  throws, no note is returned and the row keeps its old \<^verbatim>\<open>updated_at\<close>. The same update
  in the localStorage backend returns the note pinned, with the update time of the call
  and everything else as it was.
\<close>

theorem pinned_update_refused:
  "db_getNoteById sampleCrypto (sampleDb [sampleRow 1 ''text'' False] None) 1
     = Some \<lparr>note_id = 1, title = ''Note'', content = ''text'', tags = [], pinned = False,
             created_at = 0, updated_at = 0, folder_id = None, encrypted = False\<rparr>
   \<and> db_updateNote sampleCrypto [] (sampleDb [sampleRow 1 ''text'' False] None) 9
        (pinUpdate 1 True) = Inl BindError
   \<and> snd (kv_updateNote (Some [Json (sampleNote 1 [''a''] False 5)]) 9 (pinUpdate 1 True))
     = Some \<lparr>note_id = 1, title = ''Note'', content = ''text'', tags = [''a''], pinned = True,
             created_at = 1, updated_at = 9, folder_id = None, encrypted = False\<rparr>"
  by (simp add: db_getNoteById_def db_updateNote_def sampleDb_def initializeDatabase_def
      sampleRow_def pinUpdate_def rowToNote_def keyInUse_def updateParams_def Let_def
      kv_updateNote_def getNotesFromStorage_def sampleNote_def mergeNote_def
      saveNotesToStorage_def)

section \<open>The encryption codec\<close>

lemma of_char_hexDigit:
  "n < 16 \<Longrightarrow> (of_char (hexDigit n) :: nat) = (if n < 10 then 48 + n else 87 + n)"
  by (simp add: hexDigit_def)

lemma hexValue_hexDigit: "n < 16 \<Longrightarrow> hexValue (hexDigit n) = Some n"
  by (simp add: hexValue_def of_char_hexDigit Let_def)

lemma hexDigit_not_colon: "n < 16 \<Longrightarrow> hexDigit n \<noteq> CHR '':''"
proof
  assume n: "n < 16" and "hexDigit n = CHR '':''"
  then have "(of_char (hexDigit n) :: nat) = of_char (CHR '':'')" by simp
  with n show False by (simp add: of_char_hexDigit split: if_splits)
qed

lemma byte_nibbles:
  fixes b :: byte
  shows "unat b div 16 < 16" and "unat b mod 16 < 16"
    and "(of_nat (16 * (unat b div 16) + unat b mod 16) :: byte) = b"
proof -
  have "unat b < 256" using unsigned_less [of b, where ?'a = nat] by simp
  then show "unat b div 16 < 16" by simp
  show "unat b mod 16 < 16" by simp
  show "(of_nat (16 * (unat b div 16) + unat b mod 16) :: byte) = b" by simp
qed

lemma fromHex_toHex: "fromHex (toHex bs) = bs"
  by (induction bs) (simp_all add: toHex_def hexValue_hexDigit byte_nibbles)

lemma colon_not_in_toHex: "CHR '':'' \<notin> set (toHex bs)"
  by (induction bs)
     (auto simp: toHex_def byte_nibbles dest: hexDigit_not_colon [OF byte_nibbles(1), symmetric, THEN notE]
        hexDigit_not_colon [OF byte_nibbles(2), symmetric, THEN notE])

lemma split_no_sep: "sep \<notin> set s \<Longrightarrow> split s sep = [s]"
  by (induction s) auto

lemma split_at_sep: "sep \<notin> set a \<Longrightarrow> split (a @ sep # b) sep = a # split b sep"
  by (induction a) auto

lemma split_blob: "split (toHex iv @ '':'' @ toHex ct) (CHR '':'') = [toHex iv, toHex ct]"
  using split_at_sep [OF colon_not_in_toHex, of iv "toHex ct"]
  by (simp add: split_no_sep [OF colon_not_in_toHex])

lemma decrypt_blob:
  "decrypt cr (toHex iv @ '':'' @ toHex ct) key =
     (case decipher cr key ct of None \<Rightarrow> Inl DecryptError | Some p \<Rightarrow> Inr p)"
  unfolding decrypt_def split_blob by (simp add: fromHex_toHex)

lemma decrypt_no_colon: "CHR '':'' \<notin> set s \<Longrightarrow> decrypt cr s key = Inl DecryptError"
  by (simp add: decrypt_def split_no_sep)

section \<open>Rows of the SQLite backend\<close>

lemma le_foldr_max: "i \<in> set ids \<Longrightarrow> i \<le> foldr max ids (seq :: int)"
  by (induction ids) auto

lemma nextRowid_fresh: "nextRowid seq ids \<notin> set ids"
proof
  assume "nextRowid seq ids \<in> set ids"
  from le_foldr_max [OF this, of seq] show False by (simp add: nextRowid_def)
qed

lemma find_append_fresh:
  "i \<notin> r_id ` set rows \<Longrightarrow> r_id r = i \<Longrightarrow> find (\<lambda>x. r_id x = i) (rows @ [r]) = Some r"
  by (induction rows) auto

lemma find_distinct_member:
  "distinct (map r_id rows) \<Longrightarrow> r \<in> set rows \<Longrightarrow> find (\<lambda>x. r_id x = r_id r) rows = Some r"
  by (induction rows) (auto simp: image_iff)

lemma set_insert_by: "set (insert_by cmp x ys) = insert x (set ys)"
  by (induction ys) auto

lemma set_array_sort: "set (array_sort cmp xs) = set xs"
  by (induction xs) (simp_all add: array_sort_def set_insert_by)

lemma whereClause_noFilters: "whereClause noFilters r"
  by (simp add: whereClause_def noFilters_def)

lemma set_selectNotes:
  "set (selectNotes tie db fs) = {r \<in> set (notes_table db). whereClause fs r}"
  by (simp add: selectNotes_def set_array_sort)

lemma getNotesParams_bindable:
  "list_all bindable (getNotesParams fs) \<longleftrightarrow> f_pinned fs = None"
  by (cases "f_pinned fs") (auto simp: getNotesParams_def list_all_iff split: option.splits)

lemma db_getNotes_Inr:
  "db_getNotes cr tie db fs = Inr ns \<longleftrightarrow>
     f_pinned fs = None \<and> ns = map (rowToNote cr db) (selectNotes tie db fs)"
  by (auto simp: db_getNotes_def getNotesParams_bindable)

lemma db_getNotes_noFilters:
  "db_getNotes cr tie db noFilters = Inr (map (rowToNote cr db) (selectNotes tie db noFilters))"
  by (simp add: db_getNotes_Inr noFilters_def)


lemma rowToNote_encrypted_content:
  "keyInUse db = Some key \<Longrightarrow> r_encrypted r \<Longrightarrow>
     content (rowToNote cr db r)
       = (case decrypt cr (r_content r) key of Inr p \<Rightarrow> p | Inl e \<Rightarrow> sentinel)"
  by (simp add: rowToNote_content)

lemma rowToNote_plain_content:
  "keyInUse db = None \<or> \<not> r_encrypted r \<Longrightarrow> content (rowToNote cr db r) = r_content r"
  by (auto simp: rowToNote_content split: option.splits)

text \<open>\<^verbatim>\<open>createNote\<close> never returns: either the cipher throws first, or the statement
  refuses the booleans among its parameters; no row is inserted.\<close>

lemma db_createNote_refused:
  "db_createNote cr iv db now d = Inl BindError
   \<or> db_createNote cr iv db now d = Inl EncryptError"
proof -
  have e: "\<And>c key x. encrypt cr iv c key = Inl x \<Longrightarrow> x = EncryptError"
    by (auto simp: encrypt_def split: option.splits)
  show ?thesis
    by (auto simp: db_createNote_def Let_def dest: e split: option.splits sum.splits)
qed

section \<open>Encryption round trip\<close>

text \<open>The codec alone: for every plaintext and key for which the cipher of Node's crypto
  module produces an output that its decipher inverts under the same key, \<^verbatim>\<open>decrypt\<close>
  gives back what \<^verbatim>\<open>encrypt\<close> was given, whatever the random IV. The cipher is a
  parameter; the hypothesis is what is used of it.\<close>

lemma codec_roundtrip:
  assumes "cipher cr key p = Some ct" and "decipher cr key ct = Some p"
  shows "\<exists>c. encrypt cr iv p key = Inr c \<and> decrypt cr c key = Inr p"
proof -
  have e: "encrypt cr iv p key = Inr (toHex iv @ '':'' @ toHex ct)"
    using assms(1) by (simp add: encrypt_def)
  have dec: "decrypt cr (toHex iv @ '':'' @ toHex ct) key = Inr p"
    using assms(2) decrypt_blob [of cr iv ct key] by simp
  from e dec show ?thesis by simp
qed

text \<open>A row of the SQLite table that holds the codec's output for a plaintext, with
  \<^verbatim>\<open>encrypted = 1\<close>, is read under the same session key with that plaintext as its
  content.\<close>

lemma stored_ciphertext_reads_back:
  assumes "keyInUse db = Some key"
    and "cipher cr key p = Some ct" and "decipher cr key ct = Some p"
    and "encrypt cr iv p key = Inr (r_content r)" and "r_encrypted r"
  shows "content (rowToNote cr db r) = p"
proof -
  have e: "encrypt cr iv p key = Inr (toHex iv @ '':'' @ toHex ct)"
    using assms(2) by (simp add: encrypt_def)
  with assms(4) have rc: "r_content r = toHex iv @ '':'' @ toHex ct" by simp
  have dec: "decrypt cr (toHex iv @ '':'' @ toHex ct) key = Inr p"
    using assms(3) decrypt_blob [of cr iv ct key] by simp
  show ?thesis
    using rowToNote_encrypted_content [OF assms(1,5), of cr] dec rc by simp
qed

text \<open>
  C3 at the creation of an encrypted note in the SQLite backend, the only backend that
  calls the codec. With the session key \<^verbatim>\<open>key\<close> set, \<^verbatim>\<open>createNote\<close> of the content
  \<^verbatim>\<open>hi\<close> with \<^verbatim>\<open>encrypted = true\<close> encrypts the content, and the codec does round-trip
  it; but the \<^verbatim>\<open>INSERT\<close> is then given the booleans \<^verbatim>\<open>pinned\<close> and \<^verbatim>\<open>encrypted\<close> among
  its parameters and is refused, so the call throws and there is no note to read back.
\<close>

theorem encrypted_create_refused:
  "encrypt sampleCrypto [1, 2, 255] ''hi'' ''key'' = Inr ''0102ff:036869''
   \<and> decrypt sampleCrypto ''0102ff:036869'' ''key'' = Inr ''hi''
   \<and> db_createNote sampleCrypto [1, 2, 255] (sampleDb [] (Some ''key'')) 7
        (sampleCreate ''hi'' True) = Inl BindError"
proof (intro conjI)
  show "encrypt sampleCrypto [1, 2, 255] ''hi'' ''key'' = Inr ''0102ff:036869''"
    by code_simp
  show "decrypt sampleCrypto ''0102ff:036869'' ''key'' = Inr ''hi''"
    by code_simp
  show "db_createNote sampleCrypto [1, 2, 255] (sampleDb [] (Some ''key'')) 7
        (sampleCreate ''hi'' True) = Inl BindError"
    by code_simp
qed

section \<open>Decryption failures on the read path\<close>



section \<open>Encrypted notes at rest\<close>

lemma kv_createNote_stored:
  "fst (kv_createNote st now d) = saveNotesToStorage (snd (kv_createNote st now d) # getNotesFromStorage st)"
  "content (snd (kv_createNote st now d)) = c_content d"
  "note_id (snd (kv_createNote st now d)) = now"
  "kv_getNoteById (fst (kv_createNote st now d)) (note_id (snd (kv_createNote st now d)))
     = Some (snd (kv_createNote st now d))"
  by (simp_all add: kv_createNote_def Let_def kv_getNoteById_def load_save)

lemma fs_createNote_stored:
  "fst (fs_createNote files now d)
     = writeFile files (note_id (snd (fs_createNote files now d)))
         (JSON_stringify (snd (fs_createNote files now d)))"
  "content (snd (fs_createNote files now d)) = c_content d"
  "note_id (snd (fs_createNote files now d)) = now"
  "fs_getNoteById (fst (fs_createNote files now d)) (note_id (snd (fs_createNote files now d)))
     = Some (snd (fs_createNote files now d))"
  by (simp_all add: fs_createNote_def Let_def generateNoteId_def fs_get_after_write)

lemma db_read_row:
  assumes "distinct (map r_id (notes_table db))" and "r \<in> set (notes_table db)"
  shows "db_getNoteById cr db (r_id r) = Some (rowToNote cr db r)"
    and "\<exists>ns. db_getNotes cr tie db noFilters = Inr ns
           \<and> (\<exists>n \<in> set ns. note_id n = r_id r \<and> content n = content (rowToNote cr db r))"
proof -
  show "db_getNoteById cr db (r_id r) = Some (rowToNote cr db r)"
    using find_distinct_member [OF assms] by (simp add: db_getNoteById_def)
  let ?ns = "map (rowToNote cr db) (selectNotes tie db noFilters)"
  have "rowToNote cr db r \<in> set ?ns"
    using assms(2) by (simp add: set_selectNotes whereClause_noFilters)
  then have "\<exists>n \<in> set ?ns. note_id n = r_id r \<and> content n = content (rowToNote cr db r)"
    by (intro bexI [of _ "rowToNote cr db r"]) (simp_all add: rowToNote_fields)
  with db_getNotes_noFilters [of cr tie db]
  show "\<exists>ns. db_getNotes cr tie db noFilters = Inr ns
           \<and> (\<exists>n \<in> set ns. note_id n = r_id r \<and> content n = content (rowToNote cr db r))"
    by simp
qed

text \<open>
  C1, as the code has it. The localStorage backend and the file backend store and return
  the content of a created note as given, whatever the \<^verbatim>\<open>encrypted\<close> flag: they never
  call the codec. In the SQLite backend, a stored note with \<^verbatim>\<open>encrypted = true\<close> is
  returned by \<^verbatim>\<open>getNoteById\<close> and by \<^verbatim>\<open>getNotes\<close> with the decryption of its stored
  content (or the placeholder, when decryption fails) while a non-empty session key is
  set, and with its stored content unchanged while no key is set or the key is empty. The
  ids of the table are distinct, as its primary key has it.
\<close>

theorem encrypted_content_at_rest:
  "fst (kv_createNote st now d)
        = saveNotesToStorage (snd (kv_createNote st now d) # getNotesFromStorage st)
   \<and> content (snd (kv_createNote st now d)) = c_content d
   \<and> kv_getNoteById (fst (kv_createNote st now d)) (note_id (snd (kv_createNote st now d)))
        = Some (snd (kv_createNote st now d))
   \<and> fst (fs_createNote files now d)
        = writeFile files (note_id (snd (fs_createNote files now d)))
            (JSON_stringify (snd (fs_createNote files now d)))
   \<and> content (snd (fs_createNote files now d)) = c_content d
   \<and> fs_getNoteById (fst (fs_createNote files now d)) (note_id (snd (fs_createNote files now d)))
        = Some (snd (fs_createNote files now d))
   \<and> (\<forall>key r. keyInUse db = Some key \<and> distinct (map r_id (notes_table db))
          \<and> r \<in> set (notes_table db) \<and> r_encrypted r \<longrightarrow>
        (\<exists>n. db_getNoteById cr db (r_id r) = Some n
           \<and> content n = (case decrypt cr (r_content r) key of Inr p \<Rightarrow> p | Inl e \<Rightarrow> sentinel))
        \<and> (\<exists>ns. db_getNotes cr tie db noFilters = Inr ns
             \<and> (\<exists>n \<in> set ns. note_id n = r_id r
                  \<and> content n = (case decrypt cr (r_content r) key of
                                   Inr p \<Rightarrow> p | Inl e \<Rightarrow> sentinel))))
   \<and> (\<forall>r. keyInUse db = None \<and> distinct (map r_id (notes_table db))
          \<and> r \<in> set (notes_table db) \<longrightarrow>
        (\<exists>n. db_getNoteById cr db (r_id r) = Some n \<and> content n = r_content r)
        \<and> (\<exists>ns. db_getNotes cr tie db noFilters = Inr ns
             \<and> (\<exists>n \<in> set ns. note_id n = r_id r \<and> content n = r_content r)))"
proof -
  have keyed: "\<forall>key r. keyInUse db = Some key \<and> distinct (map r_id (notes_table db))
          \<and> r \<in> set (notes_table db) \<and> r_encrypted r \<longrightarrow>
        (\<exists>n. db_getNoteById cr db (r_id r) = Some n
           \<and> content n = (case decrypt cr (r_content r) key of Inr p \<Rightarrow> p | Inl e \<Rightarrow> sentinel))
        \<and> (\<exists>ns. db_getNotes cr tie db noFilters = Inr ns
             \<and> (\<exists>n \<in> set ns. note_id n = r_id r
                  \<and> content n = (case decrypt cr (r_content r) key of
                                   Inr p \<Rightarrow> p | Inl e \<Rightarrow> sentinel)))"
  proof (intro allI impI)
    fix key r
    assume "keyInUse db = Some key \<and> distinct (map r_id (notes_table db))
          \<and> r \<in> set (notes_table db) \<and> r_encrypted r"
    then have k: "keyInUse db = Some key" and d: "distinct (map r_id (notes_table db))"
      and m: "r \<in> set (notes_table db)" and e: "r_encrypted r" by simp_all
    from db_read_row [OF d m, of cr] db_read_row(2) [OF d m, of cr tie]
      rowToNote_encrypted_content [OF k e, of cr]
    show "(\<exists>n. db_getNoteById cr db (r_id r) = Some n
           \<and> content n = (case decrypt cr (r_content r) key of Inr p \<Rightarrow> p | Inl e \<Rightarrow> sentinel))
        \<and> (\<exists>ns. db_getNotes cr tie db noFilters = Inr ns
             \<and> (\<exists>n \<in> set ns. note_id n = r_id r
                  \<and> content n = (case decrypt cr (r_content r) key of
                                   Inr p \<Rightarrow> p | Inl e \<Rightarrow> sentinel)))"
      by simp
  qed
  have plain: "\<forall>r. keyInUse db = None \<and> distinct (map r_id (notes_table db))
          \<and> r \<in> set (notes_table db) \<longrightarrow>
        (\<exists>n. db_getNoteById cr db (r_id r) = Some n \<and> content n = r_content r)
        \<and> (\<exists>ns. db_getNotes cr tie db noFilters = Inr ns
             \<and> (\<exists>n \<in> set ns. note_id n = r_id r \<and> content n = r_content r))"
  proof (intro allI impI)
    fix r
    assume "keyInUse db = None \<and> distinct (map r_id (notes_table db))
          \<and> r \<in> set (notes_table db)"
    then have k: "keyInUse db = None" and d: "distinct (map r_id (notes_table db))"
      and m: "r \<in> set (notes_table db)" by simp_all
    from k have "keyInUse db = None \<or> \<not> r_encrypted r" by simp
    from db_read_row [OF d m, of cr] db_read_row(2) [OF d m, of cr tie]
      rowToNote_plain_content [OF this, of cr]
    show "(\<exists>n. db_getNoteById cr db (r_id r) = Some n \<and> content n = r_content r)
        \<and> (\<exists>ns. db_getNotes cr tie db noFilters = Inr ns
             \<and> (\<exists>n \<in> set ns. note_id n = r_id r \<and> content n = r_content r))"
      by simp
  qed
  from keyed plain show ?thesis
    by (intro conjI) (rule kv_createNote_stored fs_createNote_stored, assumption?)+
qed

theorem encrypted_content_at_rest_witness:
  "keyInUse (sampleDb [sampleRow 1 ''0102ff:036869'' True] (Some ''key'')) = Some ''key''
   \<and> distinct (map r_id (notes_table (sampleDb [sampleRow 1 ''0102ff:036869'' True] (Some ''key''))))
   \<and> sampleRow 1 ''0102ff:036869'' True
       \<in> set (notes_table (sampleDb [sampleRow 1 ''0102ff:036869'' True] (Some ''key'')))
   \<and> r_encrypted (sampleRow 1 ''0102ff:036869'' True)
   \<and> (\<exists>n. db_getNoteById sampleCrypto
             (sampleDb [sampleRow 1 ''0102ff:036869'' True] (Some ''key'')) 1 = Some n
          \<and> content n = ''hi'')
   \<and> keyInUse (sampleDb [sampleRow 1 ''0102ff:036869'' True] None) = None
   \<and> (\<exists>n. db_getNoteById sampleCrypto
             (sampleDb [sampleRow 1 ''0102ff:036869'' True] None) 1 = Some n
          \<and> content n = ''0102ff:036869'')
   \<and> content (snd (kv_createNote None 7 (sampleCreate ''hi'' True))) = ''hi''"
proof -
  let ?r = "sampleRow 1 ''0102ff:036869'' True"
  let ?db = "sampleDb [?r] (Some ''key'')"
  let ?plain = "sampleDb [?r] None"
  let ?d = "sampleCreate ''hi'' True"
  have k: "keyInUse ?db = Some ''key''" by (simp add: keyInUse_def sampleDb_def)
  have k0: "keyInUse ?plain = None" by (simp add: keyInUse_def sampleDb_def)
  have t: "notes_table ?db = [?r]" "notes_table ?plain = [?r]" by (simp_all add: sampleDb_def)
  have dd: "distinct (map r_id (notes_table ?db))" "distinct (map r_id (notes_table ?plain))"
    by (simp_all add: t)
  have m: "?r \<in> set (notes_table ?db)" "?r \<in> set (notes_table ?plain)" by (simp_all add: t)
  have e: "r_encrypted ?r" by (simp add: sampleRow_def)
  have i: "r_id ?r = 1" "r_content ?r = ''0102ff:036869''" by (simp_all add: sampleRow_def)
  have dec: "decrypt sampleCrypto ''0102ff:036869'' ''key'' = Inr ''hi''"
    by code_simp
  have c: "c_content ?d = ''hi''" by (simp add: sampleCreate_def)
  note inst = encrypted_content_at_rest [of None 7 ?d "[]" ?db sampleCrypto r_id]
  from inst k dd(1) m(1) e
  have "\<exists>n. db_getNoteById sampleCrypto ?db (r_id ?r) = Some n
      \<and> content n = (case decrypt sampleCrypto (r_content ?r) ''key'' of
                       Inr p \<Rightarrow> p | Inl e \<Rightarrow> sentinel)"
    by blast
  then have 1: "\<exists>n. db_getNoteById sampleCrypto ?db 1 = Some n \<and> content n = ''hi''"
    unfolding i by (simp add: dec)
  from encrypted_content_at_rest [of None 7 ?d "[]" ?plain sampleCrypto r_id] k0 dd(2) m(2)
  have "\<exists>n. db_getNoteById sampleCrypto ?plain (r_id ?r) = Some n \<and> content n = r_content ?r"
    by blast
  then have 2: "\<exists>n. db_getNoteById sampleCrypto ?plain 1 = Some n
      \<and> content n = ''0102ff:036869''"
    unfolding i .
  from inst c have 3: "content (snd (kv_createNote None 7 ?d)) = ''hi''" by simp
  from k dd(1) m(1) e 1 k0 2 3 show ?thesis by (intro conjI)
qed

text \<open>
  C1 as stated fails. A note created with \<^verbatim>\<open>encrypted = true\<close> in the localStorage
  backend or in the file backend is stored with its plaintext as content; and a row of
  the SQLite table that holds a ciphertext, with \<^verbatim>\<open>encrypted = 1\<close>, is returned by
  \<^verbatim>\<open>getNoteById\<close> with the ciphertext as its content while no session key is set.
\<close>

theorem plaintext_persisted_counterexample:
  "kv_createNote None 1000 (sampleCreate ''secret'' True)
     = (Some [Json \<lparr>note_id = 1000, title = ''Note'', content = ''secret'', tags = [],
                    pinned = False, created_at = 1000, updated_at = 1000,
                    folder_id = None, encrypted = True\<rparr>],
        \<lparr>note_id = 1000, title = ''Note'', content = ''secret'', tags = [],
          pinned = False, created_at = 1000, updated_at = 1000,
          folder_id = None, encrypted = True\<rparr>)
   \<and> fs_createNote [] 1000 (sampleCreate ''secret'' True)
     = ([(1000, Json \<lparr>note_id = 1000, title = ''Note'', content = ''secret'', tags = [],
                      pinned = False, created_at = 1000, updated_at = 1000,
                      folder_id = None, encrypted = True\<rparr>)],
        \<lparr>note_id = 1000, title = ''Note'', content = ''secret'', tags = [],
          pinned = False, created_at = 1000, updated_at = 1000,
          folder_id = None, encrypted = True\<rparr>)
   \<and> decrypt sampleCrypto ''0102ff:036869'' ''key'' = Inr ''hi''
   \<and> db_getNoteById sampleCrypto (sampleDb [sampleRow 1 ''0102ff:036869'' True] None) 1
     = Some \<lparr>note_id = 1, title = ''Note'', content = ''0102ff:036869'', tags = [],
             pinned = False, created_at = 0, updated_at = 0, folder_id = None,
             encrypted = True\<rparr>"
proof (intro conjI)
  show "decrypt sampleCrypto ''0102ff:036869'' ''key'' = Inr ''hi''"
    by code_simp
qed (simp_all add: kv_createNote_def getNotesFromStorage_def saveNotesToStorage_def
      JSON_stringify_array_def JSON_stringify_def sampleCreate_def
      fs_createNote_def generateNoteId_def
      keyInUse_def sampleDb_def initializeDatabase_def sampleRow_def
      db_getNoteById_def rowToNote_def Let_def)

section \<open>Malformed stored records\<close>

lemma fs_loadNotes_append:
  "fs_loadNotes (xs @ ys)
     = (fst (fs_loadNotes xs) @ fst (fs_loadNotes ys), snd (fs_loadNotes xs) @ snd (fs_loadNotes ys))"
  by (induction xs) (auto split: prod.splits option.splits)

lemma fs_loadNotes_valid:
  "fs_loadNotes (map (\<lambda>(i, n). (i, Json n)) ps) = (map snd ps, [])"
  by (induction ps) (auto split: prod.splits)

lemma JSON_parse_array_malformed:
  "JSON_parse_array (pre @ Unparsable s # post) = None"
  by (induction pre) (auto split: option.splits)

text \<open>
  C8, as the code has it. In the file backend, where every note has its own sidecar, a
  sidecar that does not parse is skipped and logged and \<^verbatim>\<open>getNotes\<close> returns every
  valid record: with the one malformed sidecar \<open>i\<close> among valid ones, the notes loaded are
  the valid ones in their order, the log holds \<open>i\<close> alone, and the unfiltered listing is
  a rearrangement of the valid notes. In the localStorage backend the whole collection is
  one JSON text: when it does not parse, \<^verbatim>\<open>getNotesFromStorage\<close> catches the error and
  returns the empty list, so the listing is empty, without an exception.
\<close>

theorem corrupt_record_isolation:
  "fs_loadNotes (map (\<lambda>(i, n). (i, Json n)) pre @ (i, Unparsable s) # map (\<lambda>(i, n). (i, Json n)) post)
     = (map snd pre @ map snd post, [i])
   \<and> mset (fs_getNotes lc (map (\<lambda>(i, n). (i, Json n)) pre @ (i, Unparsable s)
                          # map (\<lambda>(i, n). (i, Json n)) post) noFilters)
     = mset (map snd pre @ map snd post)
   \<and> getNotesFromStorage (Some (map Json kpre @ Unparsable s # map Json kpost)) = []
   \<and> kv_getNotes lc (Some (map Json kpre @ Unparsable s # map Json kpost)) fs = []"
proof -
  let ?files = "map (\<lambda>(i, n). (i, Json n)) pre @ (i, Unparsable s) # map (\<lambda>(i, n). (i, Json n)) post"
  have 1: "fs_loadNotes ?files = (map snd pre @ map snd post, [i])"
    using fs_loadNotes_append [of "map (\<lambda>(i, n). (i, Json n)) pre"
        "(i, Unparsable s) # map (\<lambda>(i, n). (i, Json n)) post"]
    by (simp add: fs_loadNotes_valid)
  have 2: "mset (fs_getNotes lc ?files noFilters) = mset (map snd pre @ map snd post)"
    unfolding fs_getNotes_def 1
    by (simp add: mset_array_sort_notes applyFilters_def noFilters_def)
  have 3: "getNotesFromStorage (Some (map Json kpre @ Unparsable s # map Json kpost)) = []"
    by (simp add: getNotesFromStorage_def JSON_parse_array_malformed)
  have 4: "kv_getNotes lc (Some (map Json kpre @ Unparsable s # map Json kpost)) fs = []"
    unfolding kv_getNotes_def 3
    by (simp add: applyFilters_def array_sort_def split: option.splits)
  from 1 2 3 4 show ?thesis by simp
qed

text \<open>
  C8 as stated fails in the localStorage backend: with one malformed record between two
  valid ones in the stored array, the listing is empty.
\<close>

theorem kv_malformed_record_counterexample:
  "kv_getNotes asciiLower (Some [Json (sampleNote 1 [] False 5), Unparsable ''{'',
                      Json (sampleNote 3 [] False 5)]) noFilters = []"
  by (simp add: kv_getNotes_def getNotesFromStorage_def applyFilters_def noFilters_def
      array_sort_def)

section \<open>Ids from the clock\<close>

text \<open>
  C9 at two creations within one millisecond: \<^verbatim>\<open>Date.now()\<close> is the id of both notes.
  The localStorage backend then holds two notes under one id, of which \<^verbatim>\<open>getNoteById\<close>
  finds the later; the file backend writes the second note's sidecar over the first's.
\<close>

theorem same_millisecond_ids:
  "map note_id (getNotesFromStorage
      (fst (kv_createNote (fst (kv_createNote None 1700000000000 (sampleCreate ''first'' False)))
              1700000000000 (sampleCreate ''second'' False))))
     = [1700000000000, 1700000000000]
   \<and> map_option content (kv_getNoteById
      (fst (kv_createNote (fst (kv_createNote None 1700000000000 (sampleCreate ''first'' False)))
              1700000000000 (sampleCreate ''second'' False))) 1700000000000)
     = Some ''second''
   \<and> map content (fs_getNotes asciiLower
      (fst (fs_createNote (fst (fs_createNote [] 1700000000000 (sampleCreate ''first'' False)))
              1700000000000 (sampleCreate ''second'' False))) noFilters)
     = [''second'']"
  by (simp add: kv_createNote_def getNotesFromStorage_def saveNotesToStorage_def
      JSON_stringify_array_def JSON_stringify_def sampleCreate_def kv_getNoteById_def
      fs_createNote_def generateNoteId_def fs_getNotes_def applyFilters_def noFilters_def
      array_sort_def Let_def)

section \<open>The folder filter and the tag ranking\<close>

text \<open>
  C4 at a folder filter: the note lies in folder 1 and the filter asks for folder 2. The
  localStorage backend and the file backend, which do not look at \<^verbatim>\<open>filters.folder_id\<close>,
  return the note; the SQLite backend returns nothing.
\<close>

theorem folder_filter_ignored:
  "kv_getNotes asciiLower (Some [Json ((sampleNote 1 [] False 5)\<lparr>folder_id := Some 1\<rparr>)])
       (noFilters\<lparr>f_folder_id := Some 2\<rparr>)
     = [(sampleNote 1 [] False 5)\<lparr>folder_id := Some 1\<rparr>]
   \<and> fs_getNotes asciiLower [(1, Json ((sampleNote 1 [] False 5)\<lparr>folder_id := Some 1\<rparr>))]
       (noFilters\<lparr>f_folder_id := Some 2\<rparr>)
     = [(sampleNote 1 [] False 5)\<lparr>folder_id := Some 1\<rparr>]
   \<and> db_getNotes sampleCrypto r_id
       (sampleDb [(sampleRow 1 ''text'' False)\<lparr>r_folder_id := Some 1\<rparr>] None)
       (noFilters\<lparr>f_folder_id := Some 2\<rparr>) = Inr []"
  by (simp add: kv_getNotes_def fs_getNotes_def getNotesFromStorage_def applyFilters_def
      noFilters_def array_sort_def db_getNotes_def getNotesParams_def selectNotes_def
      whereClause_def sampleDb_def sampleRow_def)

text \<open>
  C5 at three notes tagged b, a and a: the file backend's \<^verbatim>\<open>getTags\<close> lists the tags
  as first met, b before a, and counts nothing; the localStorage backend's \<^verbatim>\<open>getTags\<close>
  on the same notes ranks a (2 uses) before b (1 use).
\<close>

theorem fs_getTags_unranked:
  "fs_getTags asciiLower [(1, Json (sampleNote 1 [''b''] False 30)), (2, Json (sampleNote 2 [''a''] False 20)),
               (3, Json (sampleNote 3 [''a''] False 10))] (\<lambda>i. 1000)
     = [\<lparr>tag_id = 1, tag_name = ''b'', tag_created_at = 1000\<rparr>,
        \<lparr>tag_id = 2, tag_name = ''a'', tag_created_at = 1000\<rparr>]
   \<and> kv_getTags (Some [Json (sampleNote 1 [''b''] False 30), Json (sampleNote 2 [''a''] False 20),
                        Json (sampleNote 3 [''a''] False 10)]) (\<lambda>i. 1000)
     = [\<lparr>tag_id = 2, tag_name = ''a'', tag_created_at = 1000, usageCount = 2\<rparr>,
        \<lparr>tag_id = 1, tag_name = ''b'', tag_created_at = 1000, usageCount = 1\<rparr>]"
  by code_simp

section \<open>Supporting facts: the filter steps\<close>

lemma startsWith_iff: "startsWith s q \<longleftrightarrow> (\<exists>post. s = q @ post)"
  by (induction s q rule: startsWith.induct) auto

lemma str_includes_iff: "str_includes s q \<longleftrightarrow> (\<exists>pre post. s = pre @ q @ post)"
proof (induction s)
  case Nil
  then show ?case by simp
next
  case (Cons c cs)
  show ?case
  proof
    assume "str_includes (c # cs) q"
    then consider "startsWith (c # cs) q" | "str_includes cs q" by auto
    then show "\<exists>pre post. c # cs = pre @ q @ post"
    proof cases
      case 1
      then obtain post where "c # cs = q @ post" by (auto simp: startsWith_iff)
      then have "c # cs = [] @ q @ post" by simp
      then show ?thesis by blast
    next
      case 2
      with Cons.IH obtain pre post where "cs = pre @ q @ post" by blast
      then have "c # cs = (c # pre) @ q @ post" by simp
      then show ?thesis by blast
    qed
  next
    assume "\<exists>pre post. c # cs = pre @ q @ post"
    then obtain pre post where e: "c # cs = pre @ q @ post" by blast
    show "str_includes (c # cs) q"
    proof (cases pre)
      case Nil
      with e have "startsWith (c # cs) q" by (auto simp: startsWith_iff)
      then show ?thesis by simp
    next
      case (Cons p ps)
      with e have "cs = ps @ q @ post" by simp
      with Cons.IH have "str_includes cs q" by blast
      then show ?thesis by simp
    qed
  qed
qed

lemma matchesTags_iff: "matchesTags ts n \<longleftrightarrow> (\<exists>t \<in> set ts. t \<in> set (tags n))"
  by (simp add: matchesTags_def some_def array_includes_def list_ex_iff)

lemma applyFilters_filter: "applyFilters lc fs ns = filter (passesFilters lc fs) ns"
proof -
  have q: "(case f_query fs of
              Some q \<Rightarrow> if q \<noteq> [] then filter (matchesQuery lc q) ns else ns
            | None \<Rightarrow> ns)
           = filter (\<lambda>n. case f_query fs of Some q \<Rightarrow> q = [] \<or> matchesQuery lc q n | None \<Rightarrow> True) ns"
    by (simp split: option.splits)
  have p: "\<And>xs. (case f_pinned fs of Some p \<Rightarrow> filter (\<lambda>n. pinned n = p) xs | None \<Rightarrow> xs)
           = filter (\<lambda>n. case f_pinned fs of Some p \<Rightarrow> pinned n = p | None \<Rightarrow> True) xs"
    by (simp split: option.splits)
  have t: "\<And>xs. (case f_tags fs of
              Some ts \<Rightarrow> if length ts > 0 then filter (matchesTags ts) xs else xs
            | None \<Rightarrow> xs)
           = filter (\<lambda>n. case f_tags fs of
                           Some ts \<Rightarrow> ts = [] \<or> (\<exists>t \<in> set ts. t \<in> set (tags n))
                         | None \<Rightarrow> True) xs"
    by (simp add: matchesTags_iff split: option.splits cong: filter_cong)
  show ?thesis
    unfolding applyFilters_def Let_def q p t passesFilters_def
    by (simp add: conj_commute conj_left_commute cong: conj_cong)
qed

text \<open>The listings of the localStorage and file backends hold exactly the stored notes
  that pass the query, pinned and tags steps; \<^verbatim>\<open>filters.folder_id\<close> plays no part.\<close>

lemma kv_getNotes_set:
  "set (kv_getNotes lc st fs) = {n \<in> set (getNotesFromStorage st). passesFilters lc fs n}"
  by (simp add: kv_getNotes_def set_array_sort applyFilters_filter)

lemma fs_getNotes_set:
  "set (fs_getNotes lc files fs) = {n \<in> set (fst (fs_loadNotes files)). passesFilters lc fs n}"
  by (simp add: fs_getNotes_def set_array_sort applyFilters_filter)

lemma passesFilters_folder_id:
  "passesFilters lc (fs\<lparr>f_folder_id := x\<rparr>) n = passesFilters lc fs n"
  by (simp add: passesFilters_def)

section \<open>Supporting facts: ids under updates\<close>

lemma db_updateNote_ids:
  assumes "db_updateNote cr iv db now d = Inr (db', res)"
  shows "map r_id (notes_table db') = map r_id (notes_table db)"
proof -
  have "\<And>fc. map r_id (map (\<lambda>r. if r_id r = u_id d then updateRow d fc now r else r)
                         (notes_table db)) = map r_id (notes_table db)"
    by (simp add: comp_def r_id_updateRow if_distrib [of r_id] cong: if_cong)
  with assms show ?thesis
    by (auto simp: db_updateNote_def Let_def split: option.splits sum.splits if_splits)
qed

lemma kv_updateNote_ids:
  "map note_id (getNotesFromStorage (fst (kv_updateNote st now d)))
     = map note_id (getNotesFromStorage st)"
proof (cases "findIndex (\<lambda>n. note_id n = u_id d) (getNotesFromStorage st)")
  case None
  then show ?thesis by (simp add: kv_updateNote_def Let_def)
next
  case (Some i)
  from findIndex_find [OF Some] have "note_id (getNotesFromStorage st ! i) = u_id d"
    and "i < length (getNotesFromStorage st)" by simp_all
  then have "map note_id ((getNotesFromStorage st)[i := mergeNote (getNotesFromStorage st ! i) d now])
      = map note_id (getNotesFromStorage st)"
    by (simp add: map_update mergeNote_def list_update_same_conv)
  with Some show ?thesis by (simp add: kv_updateNote_def Let_def load_save)
qed

section \<open>Supporting facts: the tag ranking of the localStorage backend\<close>

lemma set_new_Set: "set (new_Set xs) = set xs"
  by (induction xs) auto

lemma distinct_new_Set: "distinct (new_Set xs)"
  by (induction xs) (auto simp: set_new_Set)

lemma foldl_count:
  "foldl (\<lambda>acc x. acc(x := acc x + 1)) f xs t = f t + count_list xs t"
  by (induction xs arbitrary: f) auto

lemma tagCounts_count_list: "tagCounts allTags t = count_list allTags t"
  using foldl_count [of "\<lambda>_. 0" allTags t] by (simp add: tagCounts_def)

lemma compareTags_key: "compareTags a b \<le> 0 \<longleftrightarrow> tagKey a \<le> tagKey b"
  by (auto simp: compareTags_def tagKey_def less_eq_prod_def)

lemma sorted_wrt_conj:
  "sorted_wrt P xs \<Longrightarrow> sorted_wrt Q xs \<Longrightarrow> sorted_wrt (\<lambda>a b. P a b \<and> Q a b) xs"
  by (induction xs) auto

lemma sorted_wrt_within_keys:
  "(\<And>k. sorted_wrt R (filter (\<lambda>x. f x = k) xs)) \<Longrightarrow> sorted_wrt (\<lambda>a b. f a = f b \<longrightarrow> R a b) xs"
proof (induction xs)
  case Nil
  then show ?case by simp
next
  case (Cons x xs)
  have tl: "\<And>k. sorted_wrt R (filter (\<lambda>x. f x = k) xs)"
  proof -
    fix k
    from Cons.prems [of k] show "sorted_wrt R (filter (\<lambda>x. f x = k) xs)"
      by (cases "f x = k") simp_all
  qed
  from Cons.prems [of "f x"] have "\<forall>y \<in> set xs. f x = f y \<longrightarrow> R x y" by auto
  with Cons.IH [OF tl] show ?case by simp
qed

lemma kv_getTags_sort_key:
  "kv_getTags st clock
     = sort_key tagKey (tagEntries (flatMap (getNotesFromStorage st) tags) clock)"
proof -
  let ?all = "flatMap (getNotesFromStorage st) tags"
  have "map (\<lambda>(t, index). \<lparr>tag_id = index + 1, tag_name = t, tag_created_at = clock index,
                               usageCount = tagCounts ?all t\<rparr>)
          (zip (new_Set ?all) [0..<length (new_Set ?all)])
        = tagEntries ?all clock"
    unfolding tagEntries_def by (rule nth_equalityI) simp_all
  then show ?thesis
    unfolding kv_getTags_def Let_def
      array_sort_sort_key [of compareTags tagKey, OF compareTags_key]
    by simp
qed

lemma tagEntries_names: "map tag_name (tagEntries allTags clock) = new_Set allTags"
  by (rule nth_equalityI) (simp_all add: tagEntries_def)

lemma tagEntries_fields:
  assumes "e \<in> set (tagEntries allTags clock)"
  shows "usageCount e = count_list allTags (tag_name e)"
    and "tag_created_at e = clock (tag_id e - 1)"
    and "0 < tag_id e"
  using assms by (auto simp: tagEntries_def tagCounts_count_list)

lemma tagEntries_ids_ascending:
  "sorted_wrt (\<lambda>a b. tag_id a < tag_id b) (tagEntries allTags clock)"
  unfolding tagEntries_def by (simp add: sorted_wrt_map)

text \<open>
  \<^verbatim>\<open>SimpleDatabaseService.getTags\<close>: one entry per distinct tag of the stored notes; each
  entry's count is the number of occurrences of its tag; the entries are in descending
  order of count; and, the clock not running backwards during the call, entries of equal
  count are in the order in which their tags are first met in the stored collection
  (\<^verbatim>\<open>id\<close> is the rank of the first occurrence).
\<close>

lemma kv_getTags_ranked:
  assumes "\<forall>i j. i \<le> j \<longrightarrow> clock i \<le> clock j"
  shows "distinct (map tag_name (kv_getTags st clock))"
    and "set (map tag_name (kv_getTags st clock)) = set (flatMap (getNotesFromStorage st) tags)"
    and "\<forall>e \<in> set (kv_getTags st clock).
           usageCount e = count_list (flatMap (getNotesFromStorage st) tags) (tag_name e)"
    and "sorted_wrt (\<lambda>a b. usageCount b \<le> usageCount a) (kv_getTags st clock)"
    and "sorted_wrt (\<lambda>a b. usageCount a = usageCount b \<longrightarrow> tag_id a < tag_id b)
           (kv_getTags st clock)"
proof -
  let ?all = "flatMap (getNotesFromStorage st) tags"
  let ?es = "tagEntries ?all clock"
  let ?r = "kv_getTags st clock"
  have r: "?r = sort_key tagKey ?es" by (rule kv_getTags_sort_key)
  have m: "mset (map tag_name ?r) = mset (new_Set ?all)"
  proof -
    have "mset (map tag_name (sort_key tagKey ?es)) = image_mset tag_name (mset ?es)"
      by simp
    also have "\<dots> = mset (map tag_name ?es)" by simp
    finally show ?thesis unfolding r by (simp only: tagEntries_names)
  qed
  from m have "distinct (map tag_name ?r) \<longleftrightarrow> distinct (new_Set ?all)"
    by (rule mset_eq_imp_distinct_iff)
  then show "distinct (map tag_name ?r)" by (simp add: distinct_new_Set)
  from m have "set (map tag_name ?r) = set (new_Set ?all)" by (rule mset_eq_setD)
  then show "set (map tag_name ?r) = set ?all" by (simp add: set_new_Set)
  have s: "set ?r = set ?es" unfolding r by simp
  show "\<forall>e \<in> set ?r. usageCount e = count_list ?all (tag_name e)"
    unfolding s using tagEntries_fields(1) by blast
  have k: "sorted_wrt (\<lambda>a b. tagKey a \<le> tagKey b) ?r"
    unfolding r using sorted_sort_key [of tagKey ?es] by (simp add: sorted_map)
  show "sorted_wrt (\<lambda>a b. usageCount b \<le> usageCount a) ?r"
    by (rule sorted_wrt_mono_rel [OF _ k]) (auto simp: tagKey_def less_eq_prod_def)
  have "\<And>key. sorted_wrt (\<lambda>a b. tag_id a < tag_id b) (filter (\<lambda>x. tagKey x = key) ?r)"
    unfolding r sort_key_stable
    by (rule sorted_wrt_filter) (rule tagEntries_ids_ascending)
  then have t: "sorted_wrt (\<lambda>a b. tagKey a = tagKey b \<longrightarrow> tag_id a < tag_id b) ?r"
    by (rule sorted_wrt_within_keys)
  show "sorted_wrt (\<lambda>a b. usageCount a = usageCount b \<longrightarrow> tag_id a < tag_id b) ?r"
  proof (rule sorted_wrt_mono_rel [OF _ sorted_wrt_conj [OF k t]])
    fix a b
    assume a: "a \<in> set ?r" and b: "b \<in> set ?r"
      and h: "tagKey a \<le> tagKey b \<and> (tagKey a = tagKey b \<longrightarrow> tag_id a < tag_id b)"
    show "usageCount a = usageCount b \<longrightarrow> tag_id a < tag_id b"
    proof
      assume c: "usageCount a = usageCount b"
      with h have le: "tag_created_at a \<le> tag_created_at b"
        by (simp add: tagKey_def less_eq_prod_def)
      show "tag_id a < tag_id b"
      proof (cases "tag_created_at a = tag_created_at b")
        case True
        with c h show ?thesis by (simp add: tagKey_def)
      next
        case False
        with le have lt: "tag_created_at a < tag_created_at b" by simp
        from a b s have ca: "tag_created_at a = clock (tag_id a - 1)"
          and cb: "tag_created_at b = clock (tag_id b - 1)"
          and pa: "0 < tag_id a" and pb: "0 < tag_id b"
          using tagEntries_fields(2,3) by blast+
        show ?thesis
        proof (rule ccontr)
          assume "\<not> tag_id a < tag_id b"
          then have "tag_id b - 1 \<le> tag_id a - 1" by simp
          with assms have "clock (tag_id b - 1) \<le> clock (tag_id a - 1)" by blast
          with lt ca cb show False by simp
        qed
      qed
    qed
  qed
qed

section \<open>Supporting facts: the listing of the SQLite backend\<close>

lemma compareRows_key: "compareRows tie a b \<le> 0 \<longleftrightarrow> rowKey tie a \<le> rowKey tie b"
  by (auto simp: compareRows_def rowKey_def less_eq_prod_def less_prod_def)

lemma selectNotes_sorted:
  "sorted_wrt (\<lambda>a b. rowKey tie a \<le> rowKey tie b) (selectNotes tie db fs)"
proof -
  have "sorted (map (rowKey tie) (sort_key (rowKey tie) (filter (whereClause fs) (notes_table db))))"
    by (rule sorted_sort_key)
  then show ?thesis
    unfolding selectNotes_def
      array_sort_sort_key [of "compareRows tie" "rowKey tie", OF compareRows_key]
    by (simp add: sorted_map)
qed

text \<open>Pinned notes first, later updates first within a pin group, also in the SQLite
  backend's listing, whatever the order that SQLite gives to rows equal in both columns.\<close>

lemma db_getNotes_order:
  assumes "db_getNotes cr tie db fs = Inr ns"
  shows "sorted_wrt (\<lambda>a b. pinned b \<longrightarrow> pinned a) ns"
    and "sorted_wrt (\<lambda>a b. pinned a = pinned b \<longrightarrow> updated_at b \<le> updated_at a) ns"
proof -
  from assms have ns: "ns = map (rowToNote cr db) (selectNotes tie db fs)"
    by (simp add: db_getNotes_Inr)
  show "sorted_wrt (\<lambda>a b. pinned b \<longrightarrow> pinned a) ns"
    unfolding ns sorted_wrt_map rowToNote_fields
    by (rule sorted_wrt_mono_rel [OF _ selectNotes_sorted [of tie]])
       (auto simp: rowKey_def less_eq_prod_def less_prod_def split: if_splits)
  show "sorted_wrt (\<lambda>a b. pinned a = pinned b \<longrightarrow> updated_at b \<le> updated_at a) ns"
    unfolding ns sorted_wrt_map rowToNote_fields
    by (rule sorted_wrt_mono_rel [OF _ selectNotes_sorted [of tie]])
       (auto simp: rowKey_def less_eq_prod_def less_prod_def split: if_splits)
qed

text \<open>Two rows equal in \<^verbatim>\<open>pinned\<close> and \<^verbatim>\<open>updated_at\<close>: listed by descending rowid when
  that is SQLite's order for them, by ascending rowid when that is.\<close>

lemma db_getNotes_tie:
  "map r_id (selectNotes (\<lambda>r. - r_id r)
      (sampleDb [sampleRow 1 ''a'' False, sampleRow 2 ''b'' False] None) noFilters) = [2, 1]
   \<and> map r_id (selectNotes r_id
      (sampleDb [sampleRow 1 ''a'' False, sampleRow 2 ''b'' False] None) noFilters) = [1, 2]"
  by (simp add: selectNotes_def whereClause_def noFilters_def sampleDb_def sampleRow_def
      array_sort_def compareRows_def)

text \<open>A listing filtered by \<^verbatim>\<open>pinned\<close> is refused in the SQLite backend: the boolean is
  bound as a parameter of the query.\<close>

lemma db_getNotes_pinned_refused:
  "f_pinned fs = Some p \<Longrightarrow> db_getNotes cr tie db fs = Inl BindError"
  by (simp add: db_getNotes_def getNotesParams_bindable)

text \<open>The tag filter of the SQLite backend is a \<^verbatim>\<open>LIKE\<close> on the JSON text of the tags:
  the filter tag A finds a note tagged a, which the other two backends do not.\<close>

lemma db_tag_filter_like:
  "db_getNotes sampleCrypto r_id
      (sampleDb [(sampleRow 1 ''text'' False)\<lparr>r_tags := [''a'']\<rparr>] None)
      (noFilters\<lparr>f_tags := Some [''A'']\<rparr>)
     = Inr [\<lparr>note_id = 1, title = ''Note'', content = ''text'', tags = [''a''], pinned = False,
             created_at = 0, updated_at = 0, folder_id = None, encrypted = False\<rparr>]
   \<and> kv_getNotes asciiLower (Some [Json (sampleNote 1 [''a''] False 5)])
       (noFilters\<lparr>f_tags := Some [''A'']\<rparr>) = []"
  by code_simp

text \<open>Two tags of equal count in the localStorage backend: the newer note is stored
  first (\<^verbatim>\<open>unshift\<close>), so its tag is met first and listed first.\<close>

lemma kv_getTags_tie:
  "map tag_name (kv_getTags
      (fst (kv_createNote (fst (kv_createNote None 1
              \<lparr>c_title = ''A'', c_content = [], c_tags = Some [''x''], c_pinned = None,
                c_folder_id = None, c_encrypted = None\<rparr>)) 2
              \<lparr>c_title = ''B'', c_content = [], c_tags = Some [''y''], c_pinned = None,
                c_folder_id = None, c_encrypted = None\<rparr>))
      (\<lambda>i. 1000 + int i)) = [''y'', ''x'']"
  by code_simp

end
